theory Spec2Isabelle
  imports Main
begin

section \<open>Data model\<close>

text \<open>
  The embedding follows \<^verbatim>\<open>lib/models/nic/provision.js\<close>, the update module
  (\<^verbatim>\<open>prepareUpdate\<close>, \<^verbatim>\<open>getUpdatedNicParams\<close>, \<^verbatim>\<open>addUpdatedNic\<close>) and the delete module
  (\<^verbatim>\<open>del\<close>, \<^verbatim>\<open>delIPs\<close>, \<^verbatim>\<open>delIP\<close>). Callback-passing stages become functions that
  return an outcome and the mutated objects. Calls on the logger are left out, except the
  warning of \<^verbatim>\<open>delIP\<close>.
\<close>

subsection \<open>Networks, IPs, parameters, NICs\<close>

record network =
  net_uuid :: string
  net_fabric :: bool
  net_vnet_id :: nat

text \<open>
  An IP object: \<^verbatim>\<open>ip.address.toString()\<close>, \<^verbatim>\<open>ip.v6address\<close>, \<^verbatim>\<open>ip.params.network\<close>,
  \<^verbatim>\<open>ip.params.belongs_to_uuid\<close>, \<^verbatim>\<open>ip.params.belongs_to_type\<close> (\<open>None\<close> is
  \<^verbatim>\<open>undefined\<close>) and the answer of \<^verbatim>\<open>ip.provisionable()\<close>.
\<close>

record ip =
  ip_address :: string
  ip_v6address :: string
  ip_network :: network
  ip_belongs_to_uuid :: "string option"
  ip_belongs_to_type :: "string option"
  ip_provisionable :: bool

text \<open>
  Modelled from the spec: \<^verbatim>\<open>ip.key()\<close> is a method of the IP model, which is not among
  the sources; the key of an IP record is the canonical string form of its address.
\<close>

definition key :: "ip \<Rightarrow> string" where
  "key i = ip_address i"

record pool =
  pool_networks :: "string list"

text \<open>Values of the properties of a parameter object (\<^verbatim>\<open>opts.validated\<close>, \<^verbatim>\<open>nic.params\<close>).\<close>

datatype pval =
    PNum nat
  | PStr string
  | PBool bool
  | PNull
  | PIP ip
  | PNet network
  | PPool pool

type_synonym params = "string \<rightharpoonup> pval"

text \<open>JavaScript truthiness of a property read: an absent property reads \<^verbatim>\<open>undefined\<close>.\<close>

fun truthy :: "pval option \<Rightarrow> bool" where
  "truthy None = False"
| "truthy (Some (PNum n)) = (n \<noteq> 0)"
| "truthy (Some (PStr s)) = (s \<noteq> [])"
| "truthy (Some (PBool b)) = b"
| "truthy (Some PNull) = False"
| "truthy (Some (PIP i)) = True"
| "truthy (Some (PNet n)) = True"
| "truthy (Some (PPool p)) = True"

text \<open>
  Modelled from the spec: the \<^verbatim>\<open>Nic\<close> class is not among the sources. A NIC object
  holds its parameters, the linked IP, the network and, on a fabric, the compute nodes of
  the overlay; \<^verbatim>\<open>new Nic(params)\<close> keeps the parameters and links nothing.
\<close>

record nic =
  nic_params :: params
  nic_ip :: "ip option"
  nic_network :: "network option"
  nic_vnetCns :: "string list option"
  nic_etag :: "string option"

definition Nic :: "params \<Rightarrow> nic" where
  "Nic p = \<lparr>nic_params = p, nic_ip = None, nic_network = None, nic_vnetCns = None,
     nic_etag = (case p ''etag'' of Some (PStr e) \<Rightarrow> Some e | _ \<Rightarrow> None)\<rparr>"

text \<open>
  Modelled from the spec: \<^verbatim>\<open>nic.isFabric()\<close> is a method of the \<^verbatim>\<open>Nic\<close> class; a NIC is
  a fabric NIC when it is on a network whose \<^verbatim>\<open>fabric\<close> flag is set.
\<close>

definition isFabric :: "nic \<Rightarrow> bool" where
  "isFabric n = (case nic_network n of None \<Rightarrow> False | Some net \<Rightarrow> net_fabric net)"

subsection \<open>Errors\<close>

text \<open>
  Messages are kept symbolic: \<^verbatim>\<open>constants.msg.INVALID_PARAMS\<close>,
  \<^verbatim>\<open>util.format(constants.fmt.IP_EXISTS, usedIP, usedNet)\<close>, \<^verbatim>\<open>constants.POOL_FULL_MSG\<close>,
  \<^verbatim>\<open>util.format(constants.fmt.IP_IN_USE, type, uuid)\<close> and string literals.
\<close>

datatype message =
    INVALID_PARAMS
  | IP_EXISTS string "string option"
  | POOL_FULL_MSG
  | IP_IN_USE "string option" "string option"
  | Literal string

text \<open>
  The entries of an \<^verbatim>\<open>InvalidParamsError\<close>, as built by \<^verbatim>\<open>errors.duplicateParam\<close>,
  \<^verbatim>\<open>errors.invalidParam\<close> and \<^verbatim>\<open>errors.usedByParam\<close>. A field or message that the call
  leaves out, or passes as \<^verbatim>\<open>undefined\<close>, is \<open>None\<close>.
\<close>

datatype param_error =
    duplicateParam "string option" "message option"
  | invalidParam "string option" message
  | usedByParam string "string option" "string option" message

text \<open>
  The error classes the code tells apart by name. \<open>EtagConflictError b k\<close> carries
  \<^verbatim>\<open>context.bucket\<close> and \<^verbatim>\<open>context.key\<close>; \<open>SubnetFullError u\<close> carries
  \<^verbatim>\<open>network_uuid\<close>.
\<close>

datatype err_kind =
    EtagConflictError string string
  | SubnetFullError string
  | InvalidParamsError message "param_error list"
  | InternalError message
  | OtherError string

datatype napi_error =
  NapiError (err_kind: err_kind) (err_stop: bool) (err_cause: "napi_error option")

text \<open>
  \<^verbatim>\<open>delete err.stop\<close>. (An error with \<^verbatim>\<open>err.stop = true\<close> is built with the flag
  set.)
\<close>

fun delete_stop :: "napi_error \<Rightarrow> napi_error" where
  "delete_stop (NapiError k s c) = NapiError k False c"

text \<open>
  \<^verbatim>\<open>VError.findCauseByName(err, 'EtagConflictError')\<close>: the first error of that class on
  the cause chain, the error itself included; the result is its context.
\<close>

fun findEtagCause :: "napi_error \<Rightarrow> (string \<times> string) option" where
  "findEtagCause (NapiError (EtagConflictError b k) s c) = Some (b, k)"
| "findEtagCause (NapiError _ s None) = None"
| "findEtagCause (NapiError _ s (Some e)) = findEtagCause e"

text \<open>
  What the code can throw: an assertion of \<^verbatim>\<open>assert-plus\<close>, a \<^verbatim>\<open>TypeError\<close> of the
  language, and whatever the \<^verbatim>\<open>Nic\<close> constructor throws.
\<close>

datatype js_exn = AssertionError string | TypeError string | ConstructorError string

text \<open>
  What a stage of a pipeline does: it calls back without an error, calls back with an
  error, or throws.
\<close>

datatype outcome = Done | Failed napi_error | Thrown js_exn

subsection \<open>Batch items\<close>

text \<open>
  \<^verbatim>\<open>ip.batch()\<close>, \<^verbatim>\<open>ip.batch({ free: true })\<close>, \<^verbatim>\<open>ip.unassignBatch()\<close>, and the items of
  \<^verbatim>\<open>nic.batch({ vnetCns })\<close> and \<^verbatim>\<open>nic.delBatch({ vnetCns })\<close>, which are items on the NIC
  bucket and are kept as one symbolic item each.
\<close>

datatype batch_item =
    IPBatch ip
  | IPFreeBatch ip
  | IPUnassignBatch ip
  | NicBatch nic "string list option"
  | NicDelBatch nic "string list option"

subsection \<open>The environment: modules that are not among the sources\<close>

text \<open>
  The store, the IP and network models, the MAC utilities and the constants are
  parameters. \<open>'w\<close> is the state outside the request (the store's contents, the random
  source). \<open>bucketName\<close> takes the value it is called with (\<open>None\<close> is \<^verbatim>\<open>undefined\<close>)
  and answers \<open>None\<close> when it throws.
\<close>

record 'w env =
  bucketName :: "string option \<Rightarrow> string option"
  BUCKET_name :: string
  nextIPonNetwork :: "params \<Rightarrow> network \<Rightarrow> 'w \<Rightarrow> (napi_error + ip) \<times> 'w"
  net_get :: "string \<Rightarrow> 'w \<Rightarrow> (napi_error + network) \<times> 'w"
  common_listVnetCns :: "nat \<Rightarrow> 'w \<Rightarrow> (napi_error + string list) \<times> 'w"
  commitBatch :: "batch_item list \<Rightarrow> 'w \<Rightarrow> napi_error option \<times> 'w"
  randomNum :: "'w \<Rightarrow> nat \<times> 'w"
  maxOUInum :: nat
  MAC_RETRIES :: nat
  createUpdated :: "ip \<Rightarrow> params \<Rightarrow> ip"
  ip_params :: "params \<Rightarrow> params"
  serialize :: "nic \<Rightarrow> params"
  Nic_check :: "params \<Rightarrow> string option"
  validate_delete :: "params \<Rightarrow> napi_error + params"
  validate_update :: "nic option \<Rightarrow> params \<Rightarrow> 'w \<Rightarrow> (napi_error + params) \<times> 'w"
  getNic :: "params \<Rightarrow> 'w \<Rightarrow> (napi_error + nic) \<times> 'w"

subsection \<open>The request context\<close>

datatype nic_fn = macSuppliedFn | randomMACFn | addUpdatedNicFn

datatype log_entry = LogWarn string

text \<open>
  The \<^verbatim>\<open>opts\<close> object. An absent property is \<open>None\<close>. \<open>removeIPs\<close> and
  \<open>provisionableIPs\<close> are \<^verbatim>\<open>opts._removeIPs\<close> and \<^verbatim>\<open>opts._provisionableIPs\<close>.
\<close>

record 'w ctx =
  validated :: params
  batch :: "batch_item list"
  ips :: "ip list"
  err :: "napi_error option"
  nic :: "nic option"
  vnetCns :: "string list option"
  removeIPs :: "ip list option"
  provisionableIPs :: "ip list option"
  macTries :: "nat option"
  maxMac :: "nat option"
  startMac :: "nat option"
  nicFn :: "nic_fn option"
  baseParams :: "params option"
  existingNic :: "nic option"
  params :: params
  validatedParams :: "params option"
  log :: "log_entry list"
  world :: 'w

section \<open>Provisioners\<close>

text \<open>
  \<^verbatim>\<open>this.network\<close> of a provisioner is \<^verbatim>\<open>null\<close>, a network object, or, in
  \<^verbatim>\<open>IPProvision\<close>, the string \<^verbatim>\<open>ip.params.network.uuid\<close>.
\<close>

datatype net_ref = NetNull | NetObj network | NetStr string

datatype prov_class = IPProvisionC | NetworkProvisionC | NetworkPoolProvisionC

text \<open>
  The fields of the three sealed classes. \<open>p_poolUUIDs\<close> is the array \<^verbatim>\<open>pool.networks\<close>
  itself, which \<^verbatim>\<open>shift()\<close> shortens; \<open>p_field\<close> is \<open>None\<close> when the constructor is called
  without it.
\<close>

record provisioner =
  p_class :: prov_class
  p_ip :: "ip option"
  p_network :: net_ref
  p_field :: "string option"
  p_poolUUIDs :: "string list"

definition IPProvision :: "ip \<Rightarrow> string option \<Rightarrow> provisioner" where
  "IPProvision i fld = \<lparr>p_class = IPProvisionC, p_ip = Some i,
     p_network = NetStr (net_uuid (ip_network i)), p_field = fld, p_poolUUIDs = []\<rparr>"

definition NetworkProvision :: "network \<Rightarrow> provisioner" where
  "NetworkProvision n = \<lparr>p_class = NetworkProvisionC, p_ip = None,
     p_network = NetObj n, p_field = None, p_poolUUIDs = []\<rparr>"

definition NetworkPoolProvision :: "pool \<Rightarrow> string \<Rightarrow> provisioner" where
  "NetworkPoolProvision pl fld = \<lparr>p_class = NetworkPoolProvisionC, p_ip = None,
     p_network = NetNull, p_field = Some fld, p_poolUUIDs = pool_networks pl\<rparr>"

text \<open>
  \<^verbatim>\<open>this.network.uuid\<close>: reading a property of \<^verbatim>\<open>null\<close> throws, a string has no
  property \<^verbatim>\<open>uuid\<close> and reads \<^verbatim>\<open>undefined\<close> (\<open>Inr None\<close>).
\<close>

fun network_uuid :: "net_ref \<Rightarrow> js_exn + string option" where
  "network_uuid NetNull = Inl (TypeError ''Cannot read property uuid of null'')"
| "network_uuid (NetObj n) = Inr (Some (net_uuid n))"
| "network_uuid (NetStr s) = Inr None"

text \<open>\<^verbatim>\<open>Provisioner.prototype.batchIP\<close>\<close>

definition batchIP :: "provisioner \<Rightarrow> 'w ctx \<Rightarrow> outcome \<times> provisioner \<times> 'w ctx" where
  "batchIP p c =
     (case p_ip p of
        None \<Rightarrow> (Thrown (AssertionError ''IP selected''), p, c)
      | Some i \<Rightarrow> (Done, p, c\<lparr>ips := ips c @ [i], batch := batch c @ [IPBatch i]\<rparr>))"

text \<open>\<^verbatim>\<open>Provisioner.prototype.haveEtagFailure\<close>\<close>

definition haveEtagFailure ::
  "'w env \<Rightarrow> provisioner \<Rightarrow> napi_error option \<Rightarrow> js_exn + bool" where
  "haveEtagFailure E p er =
     (case er of
        None \<Rightarrow> Inr False
      | Some e \<Rightarrow>
          (case p_ip p of
             None \<Rightarrow> Inr False
           | Some i \<Rightarrow>
               (case findEtagCause e of
                  None \<Rightarrow> Inr False
                | Some (cb, ck) \<Rightarrow>
                    (case network_uuid (p_network p) of
                       Inl x \<Rightarrow> Inl x
                     | Inr u \<Rightarrow>
                         (case bucketName E u of
                            None \<Rightarrow> Inl (TypeError ''bucketName'')
                          | Some b \<Rightarrow> Inr (cb = b \<and> ck = key i))))))"

text \<open>\<^verbatim>\<open>Provisioner.prototype.fetchNextIP\<close>\<close>

definition fetchNextIP ::
  "'w env \<Rightarrow> provisioner \<Rightarrow> 'w ctx \<Rightarrow> bool \<Rightarrow> outcome \<times> provisioner \<times> 'w ctx" where
  "fetchNextIP E p c dontStop =
     (case p_network p of
        NetObj n \<Rightarrow>
          (case nextIPonNetwork E (case baseParams c of None \<Rightarrow> Map.empty | Some b \<Rightarrow> b) n
                  (world c) of
             (Inl e, w) \<Rightarrow>
               (Failed (if dontStop \<and> err_stop e then delete_stop e else e), p,
                c\<lparr>world := w\<rparr>)
           | (Inr i, w) \<Rightarrow> batchIP (p\<lparr>p_ip := Some i\<rparr>) (c\<lparr>world := w\<rparr>))
      | _ \<Rightarrow> (Thrown (AssertionError ''Network selected''), p, c))"

text \<open>\<^verbatim>\<open>IPProvision.prototype.provision\<close>\<close>

definition provisionIP ::
  "'w env \<Rightarrow> provisioner \<Rightarrow> 'w ctx \<Rightarrow> outcome \<times> provisioner \<times> 'w ctx" where
  "provisionIP E p c =
     (case haveEtagFailure E p (err c) of
        Inl x \<Rightarrow> (Thrown x, p, c)
      | Inr True \<Rightarrow>
          (case p_ip p of
             None \<Rightarrow> (Thrown (TypeError ''Cannot read property address of null''), p, c)
           | Some i \<Rightarrow>
               (case network_uuid (p_network p) of
                  Inl x \<Rightarrow> (Thrown x, p, c)
                | Inr usedNet \<Rightarrow>
                    (Failed (NapiError
                       (InvalidParamsError INVALID_PARAMS
                          [duplicateParam (p_field p) (Some (IP_EXISTS (ip_address i) usedNet))])
                       True None), p, c)))
      | Inr False \<Rightarrow> batchIP p c)"

text \<open>\<^verbatim>\<open>NetworkProvision.prototype.provision\<close>\<close>

definition provisionNet ::
  "'w env \<Rightarrow> provisioner \<Rightarrow> 'w ctx \<Rightarrow> outcome \<times> provisioner \<times> 'w ctx" where
  "provisionNet E p c =
     (if p_ip p = None then fetchNextIP E p c False
      else (case haveEtagFailure E p (err c) of
              Inl x \<Rightarrow> (Thrown x, p, c)
            | Inr True \<Rightarrow> fetchNextIP E p c False
            | Inr False \<Rightarrow> batchIP p c))"

text \<open>\<^verbatim>\<open>NetworkPoolProvision.prototype.haveNetFailure\<close>\<close>

definition haveNetFailure :: "provisioner \<Rightarrow> napi_error option \<Rightarrow> js_exn + bool" where
  "haveNetFailure p er =
     (case er of
        None \<Rightarrow> Inr False
      | Some e \<Rightarrow>
          (case err_kind e of
             SubnetFullError u \<Rightarrow>
               (case network_uuid (p_network p) of
                  Inl x \<Rightarrow> Inl x
                | Inr uu \<Rightarrow> Inr (Some u = uu))
           | _ \<Rightarrow> Inr False))"

text \<open>
  \<^verbatim>\<open>NetworkPoolProvision.prototype.nextNetwork\<close>. \<^verbatim>\<open>shift()\<close> removes the first element
  of the queue; \<^verbatim>\<open>!nextUUID\<close> holds for an empty queue and for an empty string. In the
  code the queue is the array \<^verbatim>\<open>pool.networks\<close> of the pool object in \<^verbatim>\<open>opts.validated\<close>,
  so that \<^verbatim>\<open>shift()\<close> shortens that array too; the model keeps the queue in the
  provisioner only and leaves the pool object as it was. Nothing below reads the networks of
  the pool object after the provisioner has been built.
\<close>

definition nextNetwork ::
  "'w env \<Rightarrow> provisioner \<Rightarrow> 'w ctx \<Rightarrow> outcome \<times> provisioner \<times> 'w ctx" where
  "nextNetwork E p c =
     (let fullErr = NapiError
            (InvalidParamsError (Literal ''Invalid parameters'')
               [invalidParam (p_field p) POOL_FULL_MSG]) True None
      in case p_poolUUIDs p of
           [] \<Rightarrow> (Failed fullErr, p, c)
         | nextUUID # rest \<Rightarrow>
             (let p1 = p\<lparr>p_poolUUIDs := rest\<rparr>
              in if nextUUID = [] then (Failed fullErr, p1, c)
                 else (case net_get E nextUUID (world c) of
                         (Inl e, w) \<Rightarrow> (Failed e, p1, c\<lparr>world := w\<rparr>)
                       | (Inr res, w) \<Rightarrow>
                           fetchNextIP E (p1\<lparr>p_network := NetObj res\<rparr>) (c\<lparr>world := w\<rparr>)
                             True)))"

text \<open>\<^verbatim>\<open>NetworkPoolProvision.prototype.provision\<close>\<close>

definition provisionPool ::
  "'w env \<Rightarrow> provisioner \<Rightarrow> 'w ctx \<Rightarrow> outcome \<times> provisioner \<times> 'w ctx" where
  "provisionPool E p c =
     (if p_network p = NetNull then nextNetwork E p c
      else (case haveNetFailure p (err c) of
              Inl x \<Rightarrow> (Thrown x, p, c)
            | Inr True \<Rightarrow> nextNetwork E p c
            | Inr False \<Rightarrow>
                (if p_ip p = None then fetchNextIP E p c True
                 else (case haveEtagFailure E p (err c) of
                         Inl x \<Rightarrow> (Thrown x, p, c)
                       | Inr True \<Rightarrow> fetchNextIP E p c True
                       | Inr False \<Rightarrow> batchIP p c))))"

text \<open>\<^verbatim>\<open>provisioner.provision(opts, cb)\<close>: dispatch on the class.\<close>

definition provision ::
  "'w env \<Rightarrow> provisioner \<Rightarrow> 'w ctx \<Rightarrow> outcome \<times> provisioner \<times> 'w ctx" where
  "provision E p c =
     (case p_class p of
        IPProvisionC \<Rightarrow> provisionIP E p c
      | NetworkProvisionC \<Rightarrow> provisionNet E p c
      | NetworkPoolProvisionC \<Rightarrow> provisionPool E p c)"

section \<open>NIC selection\<close>

text \<open>\<^verbatim>\<open>nicEtagFail\<close>\<close>

definition nicEtagFail :: "'w env \<Rightarrow> napi_error option \<Rightarrow> bool" where
  "nicEtagFail E er =
     (case er of
        None \<Rightarrow> False
      | Some e \<Rightarrow>
          (case findEtagCause e of
             None \<Rightarrow> False
           | Some (cb, ck) \<Rightarrow> cb = BUCKET_name E))"

text \<open>
  \<^verbatim>\<open>new Nic(params)\<close>: the constructor is not among the sources; \<open>Nic_check\<close> says
  what it throws, if anything.
\<close>

definition new_Nic :: "'w env \<Rightarrow> params \<Rightarrow> js_exn + nic" where
  "new_Nic E p =
     (case Nic_check E p of Some m \<Rightarrow> Inl (ConstructorError m) | None \<Rightarrow> Inr (Nic p))"

text \<open>
  The block that \<^verbatim>\<open>macSupplied\<close>, \<^verbatim>\<open>randomMAC\<close> (twice) and \<^verbatim>\<open>addUpdatedNic\<close> share:
  \<^verbatim>\<open>if (opts.ips.length > 0) { assert.equal(opts.ips.length, 1, ...); opts.nic.ip =
  opts.ips[0]; opts.nic.network = opts.nic.ip.params.network; }\<close>
\<close>

definition linkIP :: "nic \<Rightarrow> ip list \<Rightarrow> js_exn + nic" where
  "linkIP n is =
     (if length is > 0 then
        (if length is = 1
         then Inr (n\<lparr>nic_ip := Some (is ! 0), nic_network := Some (ip_network (is ! 0))\<rparr>)
         else Inl (AssertionError ''opts.ips.length === 1''))
      else Inr n)"

text \<open>\<^verbatim>\<open>macSupplied\<close>\<close>

definition macSupplied :: "'w env \<Rightarrow> 'w ctx \<Rightarrow> outcome \<times> 'w ctx" where
  "macSupplied E c =
     (if nic c \<noteq> None \<and> nicEtagFail E (err c) then
        (Failed (NapiError
           (InvalidParamsError INVALID_PARAMS [duplicateParam (Some ''mac'') None])
           True None), c)
      else
        (case new_Nic E (validated c) of
           Inl x \<Rightarrow> (Thrown x, c)
         | Inr n0 \<Rightarrow>
             (case linkIP n0 (ips c) of
                Inl x \<Rightarrow> (Thrown x, c\<lparr>nic := Some n0\<rparr>)
              | Inr n1 \<Rightarrow>
                  (Done, c\<lparr>nic := Some
                     (if isFabric n1 \<and> vnetCns c \<noteq> None
                      then n1\<lparr>nic_vnetCns := vnetCns c\<rparr> else n1)\<rparr>))))"

text \<open>
  \<^verbatim>\<open>randomMAC\<close>. \<^verbatim>\<open>validated.mac\<close> is \<^verbatim>\<open>undefined\<close> or a number here: \<^verbatim>\<open>addParams\<close>
  selects \<^verbatim>\<open>randomMAC\<close> only for a falsy \<^verbatim>\<open>validated.mac\<close>, and \<^verbatim>\<open>randomMAC\<close> stores
  numbers only. The model stops with \<open>Thrown\<close> where \<^verbatim>\<open>validated.mac++\<close> would meet
  another truthy value, which the code would coerce to a number. MAC numbers are natural
  numbers here; the code's numbers are exact below \<open>2^53\<close>, and a MAC is below \<open>2^48\<close>.
\<close>

definition randomMAC :: "'w env \<Rightarrow> 'w ctx \<Rightarrow> outcome \<times> 'w ctx" where
  "randomMAC E c0 =
     (let c = (if macTries c0 = None then c0\<lparr>macTries := Some 0\<rparr> else c0);
          tries = (case macTries c of None \<Rightarrow> 0 | Some t \<Rightarrow> t)
      in if truthy (validated c ''mac'') \<and> \<not> nicEtagFail E (err c) then
           (case new_Nic E (validated c) of
              Inl x \<Rightarrow> (Thrown x, c)
            | Inr n0 \<Rightarrow>
                (case linkIP n0 (ips c) of
                   Inl x \<Rightarrow> (Thrown x, c\<lparr>nic := Some n0\<rparr>)
                 | Inr n1 \<Rightarrow> (Done, c\<lparr>nic := Some n1\<rparr>)))
         else if tries > MAC_RETRIES E then
           (Failed (NapiError (InternalError (Literal ''no more free MAC addresses''))
              True None), c)
         else
           (let c1 = c\<lparr>macTries := Some (tries + 1)\<rparr>;
                c2 = (if maxMac c1 = None \<or> maxMac c1 = Some 0
                      then c1\<lparr>maxMac := Some (maxOUInum E)\<rparr> else c1);
                mx = (case maxMac c2 of None \<Rightarrow> 0 | Some m \<Rightarrow> m)
            in case (if \<not> truthy (validated c2 ''mac'') then
                       (case randomNum E (world c2) of
                          (r, w) \<Rightarrow> Inr (r, c2\<lparr>validated := (validated c2)(''mac'' \<mapsto> PNum r),
                                            startMac := Some r, world := w\<rparr>))
                     else
                       (case validated c2 ''mac'' of
                          Some (PNum m) \<Rightarrow>
                            Inr (m + 1, c2\<lparr>validated := (validated c2)(''mac'' \<mapsto> PNum (m + 1))\<rparr>)
                        | _ \<Rightarrow> Inl (TypeError ''validated.mac is not a number''))) of
                 Inl x \<Rightarrow> (Thrown x, c2)
               | Inr (mac, c3) \<Rightarrow>
                   (let c4 = (if mac > mx then
                                (case randomNum E (world c3) of
                                   (r, w) \<Rightarrow> c3\<lparr>validated := (validated c3)(''mac'' \<mapsto> PNum r),
                                               world := w\<rparr>)
                              else c3)
                    in case new_Nic E (validated c4) of
                         Inl x \<Rightarrow> (Thrown x, c4)
                       | Inr n0 \<Rightarrow>
                           (case linkIP n0 (ips c4) of
                              Inl x \<Rightarrow> (Thrown x, c4\<lparr>nic := Some n0\<rparr>)
                            | Inr n1 \<Rightarrow> (Done, c4\<lparr>nic := Some n1\<rparr>)))))"

section \<open>The update module: NIC parameters\<close>

definition UPDATE_PARAMS :: "string list" where
  "UPDATE_PARAMS =
     [''allow_dhcp_spoofing'', ''allow_ip_spoofing'', ''allow_mac_spoofing'',
      ''allow_restricted_traffic'', ''allow_unfiltered_promisc'', ''belongs_to_type'',
      ''belongs_to_uuid'', ''check_owner'', ''cn_uuid'', ''ip'', ''owner_uuid'', ''model'',
      ''network'', ''network_uuid'', ''nic_tag'', ''nic_tags_provided'', ''primary'',
      ''reserved'', ''state'', ''vlan_id'']"

text \<open>
  \<^verbatim>\<open>getUpdatedNicParams\<close>. \<^verbatim>\<open>hasOwnProperty(p)\<close> is \<open>validated c p \<noteq> None\<close>; reading
  a property of an \<^verbatim>\<open>opts.existingNic\<close> that is not there throws.
\<close>

definition getUpdatedNicParams :: "'w env \<Rightarrow> 'w ctx \<Rightarrow> js_exn + params" where
  "getUpdatedNicParams E c =
     (case existingNic c of
        None \<Rightarrow> Inl (TypeError ''Cannot read property serialize of undefined'')
      | Some en \<Rightarrow>
          Inr ((fold (\<lambda>p updatedNicParams.
                        case validated c p of
                          None \<Rightarrow> updatedNicParams
                        | Some v \<Rightarrow> updatedNicParams(p \<mapsto> v))
                  UPDATE_PARAMS (serialize E en))
               (''etag'' := map_option PStr (nic_etag en))))"

text \<open>An exception handed to a callback is an error without a \<^verbatim>\<open>stop\<close> property.\<close>

fun exn_error :: "js_exn \<Rightarrow> napi_error" where
  "exn_error (AssertionError m) = NapiError (OtherError ''AssertionError'') False None"
| "exn_error (TypeError m) = NapiError (OtherError ''TypeError'') False None"
| "exn_error (ConstructorError m) = NapiError (OtherError ''Error'') False None"

text \<open>\<^verbatim>\<open>addUpdatedNic\<close>\<close>

definition addUpdatedNic :: "'w env \<Rightarrow> 'w ctx \<Rightarrow> outcome \<times> 'w ctx" where
  "addUpdatedNic E c =
     (case getUpdatedNicParams E c of
        Inl nicErr \<Rightarrow> (Failed (exn_error nicErr), c)
      | Inr up \<Rightarrow>
          (case new_Nic E up of
             Inl nicErr \<Rightarrow> (Failed (exn_error nicErr), c)
           | Inr n0 \<Rightarrow>
               (case linkIP n0 (ips c) of
                  Inl x \<Rightarrow> (Thrown x, c\<lparr>nic := Some n0\<rparr>)
                | Inr n1 \<Rightarrow> (Done, c\<lparr>nic := Some n1\<rparr>))))"

section \<open>The allocation driver\<close>

text \<open>
  \<^verbatim>\<open>vasync.pipeline\<close> and \<^verbatim>\<open>vasync.forEachPipeline\<close>: the stages run in order, and the
  first one that does not call back cleanly ends the run.
\<close>

fun pipeline :: "('s \<Rightarrow> outcome \<times> 's) list \<Rightarrow> 's \<Rightarrow> outcome \<times> 's" where
  "pipeline [] s = (Done, s)"
| "pipeline (f # fs) s =
     (case f s of
        (Done, s') \<Rightarrow> pipeline fs s'
      | (r, s') \<Rightarrow> (r, s'))"

text \<open>\<^verbatim>\<open>runProvisions\<close>: each provisioner mutates itself and \<^verbatim>\<open>opts\<close>.\<close>

fun runProvisions ::
  "'w env \<Rightarrow> provisioner list \<Rightarrow> 'w ctx \<Rightarrow> outcome \<times> provisioner list \<times> 'w ctx" where
  "runProvisions E [] c = (Done, [], c)"
| "runProvisions E (p # ps) c =
     (case provision E p c of
        (Done, p', c') \<Rightarrow>
          (case runProvisions E ps c' of (r, ps', c'') \<Rightarrow> (r, p' # ps', c''))
      | (r, p', c') \<Rightarrow> (r, p' # ps, c'))"

text \<open>\<^verbatim>\<open>freeOldIPs\<close>\<close>

definition freeOldIPs :: "'w ctx \<Rightarrow> outcome \<times> 'w ctx" where
  "freeOldIPs c =
     (case removeIPs c of
        None \<Rightarrow> (Done, c)
      | Some olds \<Rightarrow> (Done, c\<lparr>batch := batch c @ map IPFreeBatch olds\<rparr>))"

text \<open>
  \<^verbatim>\<open>networks[network.uuid] = network\<close> on an object used as a dictionary: a new key goes
  to the end, a known key keeps its place.
\<close>

fun assign :: "string \<Rightarrow> network \<Rightarrow> (string \<times> network) list \<Rightarrow> (string \<times> network) list" where
  "assign k v [] = [(k, v)]"
| "assign k v ((k', v') # kvs) =
     (if k = k' then (k, v) # kvs else (k', v') # assign k v kvs)"

text \<open>
  \<^verbatim>\<open>vasync.forEachParallel\<close> over the fabric networks: every listing runs; the results
  are gathered in the order of the inputs.
\<close>

fun list_all_cns ::
  "'w env \<Rightarrow> network list \<Rightarrow> 'w \<Rightarrow> (napi_error + string list) list \<times> 'w" where
  "list_all_cns E [] w = ([], w)"
| "list_all_cns E (n # ns) w =
     (case common_listVnetCns E (net_vnet_id n) w of
        (r, w') \<Rightarrow> (case list_all_cns E ns w' of (rs, w'') \<Rightarrow> (r # rs, w'')))"

text \<open>
  \<^verbatim>\<open>listVnetCns\<close> of the provisioning module. When a listing fails, \<^verbatim>\<open>forEachParallel\<close>
  calls back with a \<^verbatim>\<open>MultiError\<close> whose cause is the first failure.
\<close>

definition listVnetCns :: "'w env \<Rightarrow> 'w ctx \<Rightarrow> outcome \<times> 'w ctx" where
  "listVnetCns E c =
     (let networks = fold (\<lambda>i nets.
                        if net_fabric (ip_network i)
                        then assign (net_uuid (ip_network i)) (ip_network i) nets else nets)
                      (ips c) []
      in if networks = [] then (Done, c)
         else (case list_all_cns E (map snd networks) (world c) of
                 (rs, w) \<Rightarrow>
                   (case [e. Inl e \<leftarrow> rs] of
                      e # _ \<Rightarrow>
                        (Failed (NapiError (OtherError ''MultiError'') False (Some e)),
                         c\<lparr>world := w\<rparr>)
                    | [] \<Rightarrow>
                        (Done, c\<lparr>vnetCns := Some (concat [cns. Inr cns \<leftarrow> rs]),
                                 world := w\<rparr>))))"

text \<open>\<^verbatim>\<open>opts.nicFn\<close>, called as the fourth stage.\<close>

fun run_nicFn :: "nic_fn \<Rightarrow> 'w env \<Rightarrow> 'w ctx \<Rightarrow> outcome \<times> 'w ctx" where
  "run_nicFn macSuppliedFn E c = macSupplied E c"
| "run_nicFn randomMACFn E c = randomMAC E c"
| "run_nicFn addUpdatedNicFn E c = addUpdatedNic E c"

text \<open>\<^verbatim>\<open>nicBatch\<close> with \<^verbatim>\<open>addNicToBatch\<close>\<close>

definition nicBatch :: "'w ctx \<Rightarrow> outcome \<times> 'w ctx" where
  "nicBatch c =
     (case nic c of
        None \<Rightarrow> (Thrown (TypeError ''Cannot read property ip of undefined''), c)
      | Some n \<Rightarrow> (Done, c\<lparr>batch := batch c @ [NicBatch n (vnetCns c)]\<rparr>))"

text \<open>\<^verbatim>\<open>common.commitBatch\<close>\<close>

definition commit :: "'w env \<Rightarrow> 'w ctx \<Rightarrow> outcome \<times> 'w ctx" where
  "commit E c =
     (case commitBatch E (batch c) (world c) of
        (None, w) \<Rightarrow> (Done, c\<lparr>world := w\<rparr>)
      | (Some e, w) \<Rightarrow> (Failed e, c\<lparr>world := w\<rparr>))"

text \<open>
  One turn of the function given to \<^verbatim>\<open>util_common.repeat\<close>, up to the callback of the
  pipeline: the reset of \<^verbatim>\<open>opts.batch\<close> and \<^verbatim>\<open>opts.ips\<close>, then the six stages. The
  source reads \<^verbatim>\<open>opts.nicFn\<close> in every turn; no stage assigns it, so the model takes it
  as an argument.
\<close>

definition iteration ::
  "'w env \<Rightarrow> nic_fn \<Rightarrow> provisioner list \<Rightarrow> 'w ctx \<Rightarrow> outcome \<times> provisioner list \<times> 'w ctx" where
  "iteration E f ps c =
     (case runProvisions E ps (c\<lparr>batch := [], ips := []\<rparr>) of
        (Done, ps1, c1) \<Rightarrow>
          (case pipeline [freeOldIPs, listVnetCns E, run_nicFn f E, nicBatch, commit E] c1 of
             (r, c2) \<Rightarrow> (r, ps1, c2))
      | (r, ps1, c1) \<Rightarrow> (r, ps1, c1))"

text \<open>What \<^verbatim>\<open>nicAndIP\<close> hands to its callback, or the exception that escapes it.\<close>

datatype answer = Result "nic option" | Error napi_error | Exception js_exn

text \<open>
  \<^verbatim>\<open>util_common.repeat\<close> around the turn: \<^verbatim>\<open>cb(err, null, false)\<close> ends the loop with
  the error, \<^verbatim>\<open>cb(null, null, true)\<close> runs the function again, \<^verbatim>\<open>cb(null, opts.nic, false)\<close>
  ends it with the NIC. The loop has no bound of its own; the first argument is the number
  of turns the model may take, and \<open>None\<close> says that they did not suffice.
\<close>

fun repeat ::
  "nat \<Rightarrow> 'w env \<Rightarrow> nic_fn \<Rightarrow> provisioner list \<Rightarrow> 'w ctx \<Rightarrow>
     (answer \<times> provisioner list \<times> 'w ctx) option" where
  "repeat 0 E f ps c = None"
| "repeat (Suc n) E f ps c =
     (case iteration E f ps c of
        (Done, ps', c') \<Rightarrow> Some (Result (nic c'), ps', c')
      | (Failed e, ps', c') \<Rightarrow>
          (if err_stop e then Some (Error e, ps', c')
           else repeat n E f ps' (c'\<lparr>err := Some e\<rparr>))
      | (Thrown x, ps', c') \<Rightarrow> Some (Exception x, ps', c'))"

text \<open>
  The provisioners \<^verbatim>\<open>nicAndIP\<close> builds. \<^verbatim>\<open>new IPProvision(updated)\<close> is called without a
  field. A truthy \<^verbatim>\<open>network_pool\<close> or \<^verbatim>\<open>network\<close> that is not a pool or a network object
  is outside the model and ends in the constructor's assertion.
\<close>

definition provisioners_of :: "'w env \<Rightarrow> params \<Rightarrow> 'w ctx \<Rightarrow> js_exn + provisioner list" where
  "provisioners_of E bp c =
     (if truthy (validated c ''_ip'') then
        (case provisionableIPs c of
           None \<Rightarrow> Inl (AssertionError ''provisionableIPs'')
         | Some l \<Rightarrow> Inr (map (\<lambda>i. IPProvision (createUpdated E i bp) None) l))
      else if truthy (validated c ''network_pool'') then
        (case validated c ''network_pool'' of
           Some (PPool pl) \<Rightarrow> Inr [NetworkPoolProvision pl ''network_uuid'']
         | _ \<Rightarrow> Inl (AssertionError ''pool''))
      else if truthy (validated c ''network'') then
        (case validated c ''network'' of
           Some (PNet n) \<Rightarrow> Inr [NetworkProvision n]
         | _ \<Rightarrow> Inl (AssertionError ''network''))
      else Inr [])"

text \<open>\<^verbatim>\<open>nicAndIP\<close>\<close>

definition nicAndIP :: "nat \<Rightarrow> 'w env \<Rightarrow> 'w ctx \<Rightarrow> (answer \<times> 'w ctx) option" where
  "nicAndIP fuel E c =
     (case baseParams c of
        None \<Rightarrow> Some (Exception (AssertionError ''opts.baseParams''), c)
      | Some bp \<Rightarrow>
          (case nicFn c of
             None \<Rightarrow> Some (Exception (AssertionError ''opts.nicFn''), c)
           | Some f \<Rightarrow>
               (case provisioners_of E bp c of
                  Inl x \<Rightarrow> Some (Exception x, c)
                | Inr ps \<Rightarrow>
                    map_option (\<lambda>(r, ps', c'). (r, c')) (repeat fuel E f ps c))))"

section \<open>The update module: the chain\<close>

text \<open>\<^verbatim>\<open>getExistingNic\<close> (the update and the delete module have the same one).\<close>

definition getExistingNic :: "'w env \<Rightarrow> 'w ctx \<Rightarrow> outcome \<times> 'w ctx" where
  "getExistingNic E c =
     (case getNic E (params c) (world c) of
        (Inl e, w) \<Rightarrow> (Failed e, c\<lparr>existingNic := None, world := w\<rparr>)
      | (Inr n, w) \<Rightarrow> (Done, c\<lparr>existingNic := Some n, world := w\<rparr>))"

text \<open>\<^verbatim>\<open>validateUpdateParams\<close>\<close>

definition validateUpdateParams :: "'w env \<Rightarrow> 'w ctx \<Rightarrow> outcome \<times> 'w ctx" where
  "validateUpdateParams E c =
     (case validate_update E (existingNic c) (params c) (world c) of
        (Inl e, w) \<Rightarrow> (Failed e, c\<lparr>world := w\<rparr>)
      | (Inr res, w) \<Rightarrow> (Done, c\<lparr>validated := res, world := w\<rparr>))"

text \<open>
  \<^verbatim>\<open>nicOwner === oldIP.params.belongs_to_uuid\<close>, between a property of a parameter object
  and a property of an IP.
\<close>

definition strict_eq :: "pval option \<Rightarrow> string option \<Rightarrow> bool" where
  "strict_eq a b = (a = map_option PStr b)"

text \<open>The check that every new IP is provisionable, at the end of \<^verbatim>\<open>prepareUpdate\<close>.\<close>

definition check_provisionable :: "ip \<Rightarrow> 'w ctx \<Rightarrow> outcome \<times> 'w ctx" where
  "check_provisionable i c =
     (if ip_provisionable i then (Done, c)
      else (Failed (NapiError
              (InvalidParamsError INVALID_PARAMS
                 [usedByParam ''ip'' (ip_belongs_to_type i) (ip_belongs_to_uuid i)
                    (IP_IN_USE (ip_belongs_to_type i) (ip_belongs_to_uuid i))])
              False None), c))"

text \<open>
  \<^verbatim>\<open>prepareUpdate\<close>. A \<^verbatim>\<open>validated._ip\<close> that is not an IP object is outside the model and
  ends in a \<open>TypeError\<close>.
\<close>

definition prepareUpdate :: "'w env \<Rightarrow> 'w ctx \<Rightarrow> outcome \<times> 'w ctx" where
  "prepareUpdate E c =
     (case getUpdatedNicParams E c of
        Inl x \<Rightarrow> (Thrown x, c\<lparr>nicFn := Some addUpdatedNicFn\<rparr>)
      | Inr up \<Rightarrow>
          (let c1 = c\<lparr>nicFn := Some addUpdatedNicFn, baseParams := Some (ip_params E up)\<rparr>
           in case validated c1 ''_ip'' of
                None \<Rightarrow> (Done, c1)
              | Some (PIP newIP) \<Rightarrow>
                  (case existingNic c1 of
                     None \<Rightarrow> (Thrown (TypeError ''Cannot read property ip of undefined''), c1)
                   | Some oldNIC \<Rightarrow>
                       (let oldIPs = (case nic_ip oldNIC of None \<Rightarrow> [] | Some i \<Rightarrow> [i]);
                            nicOwner = nic_params oldNIC ''belongs_to_uuid'';
                            ips' = [newIP];
                            newAddrs = map ip_v6address ips';
                            oldAddrs = map ip_v6address oldIPs;
                            c2 = c1\<lparr>provisionableIPs := Some ips',
                                    removeIPs := Some
                                      (filter (\<lambda>oldIP. ip_v6address oldIP \<notin> set newAddrs \<and>
                                                 strict_eq nicOwner (ip_belongs_to_uuid oldIP))
                                         oldIPs)\<rparr>
                        in pipeline
                             (map check_provisionable
                                (filter (\<lambda>newIP. ip_v6address newIP \<notin> set oldAddrs) ips'))
                             c2))
              | Some _ \<Rightarrow> (Thrown (TypeError ''validated._ip is not an IP''), c1)))"

text \<open>
  \<^verbatim>\<open>update\<close>: the four stages. The last one is the allocation driver, with the number of
  turns its loop may take.
\<close>

definition update :: "nat \<Rightarrow> 'w env \<Rightarrow> 'w ctx \<Rightarrow> (answer \<times> 'w ctx) option" where
  "update fuel E c =
     (case pipeline [getExistingNic E, validateUpdateParams E, prepareUpdate E] c of
        (Done, c1) \<Rightarrow>
          (case nicAndIP fuel E c1 of
             None \<Rightarrow> None
           | Some (Result r, c2) \<Rightarrow> Some (Result (nic c2), c2)
           | Some (Error e, c2) \<Rightarrow> Some (Error e, c2)
           | Some (Exception x, c2) \<Rightarrow> Some (Exception x, c2))
      | (Failed e, c1) \<Rightarrow> Some (Error e, c1)
      | (Thrown x, c1) \<Rightarrow> Some (Exception x, c1))"

section \<open>The delete module\<close>

text \<open>\<^verbatim>\<open>validateDeleteParams\<close>\<close>

definition validateDeleteParams :: "'w env \<Rightarrow> 'w ctx \<Rightarrow> outcome \<times> 'w ctx" where
  "validateDeleteParams E c =
     (case validate_delete E (params c) of
        Inl e \<Rightarrow> (Failed e, c\<lparr>validatedParams := None\<rparr>)
      | Inr res \<Rightarrow> (Done, c\<lparr>validatedParams := Some res\<rparr>))"

text \<open>\<^verbatim>\<open>listVnetCns\<close> of the delete module\<close>

definition del_listVnetCns :: "'w env \<Rightarrow> 'w ctx \<Rightarrow> outcome \<times> 'w ctx" where
  "del_listVnetCns E c =
     (case existingNic c of
        None \<Rightarrow> (Thrown (TypeError ''Cannot read property isFabric of undefined''), c)
      | Some en \<Rightarrow>
          (if \<not> isFabric en then (Done, c)
           else (case nic_network en of
                   None \<Rightarrow> (Thrown (TypeError ''Cannot read property vnet_id of null''), c)
                 | Some net \<Rightarrow>
                     (case common_listVnetCns E (net_vnet_id net) (world c) of
                        (Inl listErr, w) \<Rightarrow> (Failed listErr, c\<lparr>world := w\<rparr>)
                      | (Inr cns, w) \<Rightarrow> (Done, c\<lparr>vnetCns := Some cns, world := w\<rparr>)))))"

text \<open>\<^verbatim>\<open>addNicToBatch\<close> of the delete module\<close>

definition del_addNicToBatch :: "'w ctx \<Rightarrow> outcome \<times> 'w ctx" where
  "del_addNicToBatch c =
     (case existingNic c of
        None \<Rightarrow> (Thrown (TypeError ''Cannot read property delBatch of undefined''), c)
      | Some en \<Rightarrow> (Done, c\<lparr>batch := [NicDelBatch en (vnetCns c)]\<rparr>))"

text \<open>\<^verbatim>\<open>delIP\<close>\<close>

definition delIP :: "nic \<Rightarrow> ip \<Rightarrow> 'w ctx \<Rightarrow> outcome \<times> 'w ctx" where
  "delIP en i c =
     (if strict_eq (nic_params en ''belongs_to_uuid'') (ip_belongs_to_uuid i)
      then (Done, c\<lparr>batch := batch c @ [IPUnassignBatch i]\<rparr>)
      else (Done, c\<lparr>log := log c @
              [LogWarn ''nic: delete: IP and NIC belongs_to_uuid do not match'']\<rparr>))"

text \<open>\<^verbatim>\<open>delIPs\<close>: \<^verbatim>\<open>forEachParallel\<close> over the one IP of the NIC.\<close>

definition delIPs :: "'w ctx \<Rightarrow> outcome \<times> 'w ctx" where
  "delIPs c =
     (case existingNic c of
        None \<Rightarrow> (Done, c)
      | Some en \<Rightarrow>
          (case nic_ip en of
             None \<Rightarrow> (Done, c)
           | Some i \<Rightarrow> delIP en i c))"

text \<open>\<^verbatim>\<open>del\<close>\<close>

definition del :: "'w env \<Rightarrow> 'w ctx \<Rightarrow> outcome \<times> 'w ctx" where
  "del E c =
     pipeline [validateDeleteParams E, getExistingNic E, del_listVnetCns E,
               del_addNicToBatch, delIPs, commit E] c"

section \<open>Example values\<close>

text \<open>
  Concrete networks, IPs, an environment and a context, on which the theorems below are
  instantiated. The state outside the request is a counter of the calls made so far.
\<close>

definition net1 :: network where
  "net1 = \<lparr>net_uuid = ''N1'', net_fabric = False, net_vnet_id = 0\<rparr>"


definition ip10 :: ip where
  "ip10 = \<lparr>ip_address = ''10.0.0.10'', ip_v6address = ''::ffff:10.0.0.10'',
     ip_network = net1, ip_belongs_to_uuid = Some ''B1'', ip_belongs_to_type = Some ''zone'',
     ip_provisionable = True\<rparr>"

definition ip11 :: ip where
  "ip11 = \<lparr>ip_address = ''10.0.0.11'', ip_v6address = ''::ffff:10.0.0.11'',
     ip_network = net1, ip_belongs_to_uuid = None, ip_belongs_to_type = None,
     ip_provisionable = True\<rparr>"

text \<open>
  In this environment \<open>bucketName\<close> throws on \<^verbatim>\<open>undefined\<close> (as a function that calls a
  string method on its argument does), every network is full, the store accepts every
  batch, and the random source counts upwards inside the OUI, whose numbers are 100 to 200.
\<close>

definition env1 :: "nat env" where
  "env1 = \<lparr>
     bucketName = (\<lambda>u. case u of None \<Rightarrow> None | Some s \<Rightarrow> Some (''napi_ips_'' @ s)),
     BUCKET_name = ''napi_nics'',
     nextIPonNetwork = (\<lambda>bp n w.
        (Inl (NapiError (SubnetFullError (net_uuid n)) True None), w + 1)),
     net_get = (\<lambda>u w. (Inr \<lparr>net_uuid = u, net_fabric = False, net_vnet_id = 0\<rparr>, w + 1)),
     common_listVnetCns = (\<lambda>v w. (Inr [], w + 1)),
     commitBatch = (\<lambda>b w. (None, w + 1)),
     randomNum = (\<lambda>w. (100 + w mod 100, w + 1)),
     maxOUInum = 200,
     MAC_RETRIES = 3,
     createUpdated = (\<lambda>i bp. i),
     ip_params = (\<lambda>p. p),
     serialize = nic_params,
     Nic_check = (\<lambda>p. None),
     validate_delete = (\<lambda>p. Inr p),
     validate_update = (\<lambda>en p w. (Inr p, w + 1)),
     getNic = (\<lambda>p w. (Inl (NapiError (OtherError ''ResourceNotFoundError'') False None),
                       w + 1))\<rparr>"

text \<open>The same, with a \<open>bucketName\<close> that formats \<^verbatim>\<open>undefined\<close> into the name.\<close>

definition env2 :: "nat env" where
  "env2 = env1\<lparr>bucketName :=
     (\<lambda>u. Some (''napi_ips_'' @ (case u of None \<Rightarrow> ''undefined'' | Some s \<Rightarrow> s)))\<rparr>"

definition ctx1 :: "nat ctx" where
  "ctx1 = \<lparr>validated = Map.empty, batch = [], ips = [], err = None, nic = None,
     vnetCns = None, removeIPs = None, provisionableIPs = None, macTries = None,
     maxMac = None, startMac = None, nicFn = None, baseParams = None,
     existingNic = None, params = Map.empty, validatedParams = None, log = [],
     world = 0\<rparr>"

text \<open>
  A second turn of a request with MAC 1: the NIC was built in the first turn, and the
  commit failed on the record of another NIC (key 2) in the NIC bucket.
\<close>

definition ctx_other_nic_conflict :: "nat ctx" where
  "ctx_other_nic_conflict =
     ctx1\<lparr>validated := [''mac'' \<mapsto> PNum 1], nic := Some (Nic [''mac'' \<mapsto> PNum 1]),
       err := Some (NapiError (EtagConflictError ''napi_nics'' ''2'') False None)\<rparr>"

text \<open>A first turn of a request with MAC 1, after the provisioner has chosen an IP.\<close>

definition ctx_first_turn :: "nat ctx" where
  "ctx_first_turn = ctx1\<lparr>validated := [''mac'' \<mapsto> PNum 1], ips := [ip10]\<rparr>"

text \<open>
  The commit of the previous turn failed on the record of \<open>ip10\<close> in the bucket of its
  network.
\<close>

definition err_ip10_conflict :: napi_error where
  "err_ip10_conflict = NapiError (EtagConflictError ''napi_ips_N1'' ''10.0.0.10'') False None"

text \<open>
  An environment whose store refuses the first batch, with a version conflict on the
  record of \<open>ip10\<close>, and accepts the later ones.
\<close>

definition env3 :: "nat env" where
  "env3 = env1\<lparr>commitBatch :=
     (\<lambda>b w. (if w = 0 then Some err_ip10_conflict else None, w + 1))\<rparr>"

text \<open>A request with MAC 1 and no IP, and a request for the next IP on \<open>net1\<close>.\<close>

definition ctx_mac_only :: "nat ctx" where
  "ctx_mac_only = ctx1\<lparr>validated := [''mac'' \<mapsto> PNum 1], nicFn := Some macSuppliedFn,
     baseParams := Some Map.empty\<rparr>"

definition ctx_on_net1 :: "nat ctx" where
  "ctx_on_net1 = ctx1\<lparr>validated := [''mac'' \<mapsto> PNum 1, ''network'' \<mapsto> PNet net1],
     nicFn := Some macSuppliedFn, baseParams := Some Map.empty\<rparr>"

definition nic_mac1 :: nic where
  "nic_mac1 = Nic [''mac'' \<mapsto> PNum 1]"

definition err_net1_full :: napi_error where
  "err_net1_full = NapiError (SubnetFullError ''N1'') True None"

text \<open>
  A request for the address \<open>ip10\<close> with MAC 1, as \<^verbatim>\<open>addParams\<close> prepares it, and a context
  in which two IPs have been selected.
\<close>

definition ctx_want_ip10 :: "nat ctx" where
  "ctx_want_ip10 = ctx1\<lparr>validated := [''mac'' \<mapsto> PNum 1, ''_ip'' \<mapsto> PIP ip10],
     provisionableIPs := Some [ip10], nicFn := Some macSuppliedFn,
     baseParams := Some Map.empty\<rparr>"

definition ctx_two_ips :: "nat ctx" where
  "ctx_two_ips = ctx1\<lparr>validated := [''mac'' \<mapsto> PNum 1], ips := [ip10, ip11]\<rparr>"

section \<open>Notions used in the statements\<close>

text \<open>
  Modelled from the spec: the key of a NIC in the NIC bucket is its MAC integer as a
  string (\<^verbatim>\<open>Nic.key\<close> is not among the sources).
\<close>

function toString :: "nat \<Rightarrow> string" where
  "toString n =
     (if n < 10 then [''0123456789'' ! n]
      else toString (n div 10) @ [''0123456789'' ! (n mod 10)])"
  by pat_completeness auto
termination
  by (relation "measure id") auto

declare toString.simps [simp del]

text \<open>
  The condition of the specification for \<^verbatim>\<open>macSupplied\<close>: the previous error is a
  version conflict in the NIC bucket, on the key of the MAC of this request.
\<close>

definition mac_key_conflict :: "'w env \<Rightarrow> 'w ctx \<Rightarrow> bool" where
  "mac_key_conflict E c =
     (case err c of
        None \<Rightarrow> False
      | Some e \<Rightarrow>
          (case findEtagCause e of
             None \<Rightarrow> False
           | Some (cb, ck) \<Rightarrow>
               cb = BUCKET_name E \<and>
               (case validated c ''mac'' of
                  Some (PNum m) \<Rightarrow> ck = toString m
                | _ \<Rightarrow> False)))"

definition mac_duplicate :: napi_error where
  "mac_duplicate = NapiError
     (InvalidParamsError INVALID_PARAMS [duplicateParam (Some ''mac'') None]) True None"


text \<open>
  The version conflicts on the cause chain of an error, in the order in which
  \<^verbatim>\<open>VError.findCauseByName\<close> meets them: the error itself first, then its cause, and so on.
  Each is given by its bucket and key.
\<close>

fun own_conflict :: "err_kind \<Rightarrow> (string \<times> string) list" where
  "own_conflict (EtagConflictError b k) = [(b, k)]"
| "own_conflict _ = []"

fun etag_conflicts :: "napi_error \<Rightarrow> (string \<times> string) list" where
  "etag_conflicts (NapiError kind s None) = own_conflict kind"
| "etag_conflicts (NapiError kind s (Some e)) = own_conflict kind @ etag_conflicts e"

text \<open>
  A second turn of a request with MAC 1 whose previous error is a version conflict on the
  record of \<open>ip10\<close>, caused by a version conflict on the record of the NIC.
\<close>

definition err_nic_behind_ip :: napi_error where
  "err_nic_behind_ip = NapiError (EtagConflictError ''napi_ips_N1'' ''10.0.0.10'') False
     (Some (NapiError (EtagConflictError ''napi_nics'' ''1'') False None))"

definition ctx_nic_behind_ip :: "nat ctx" where
  "ctx_nic_behind_ip = ctx1\<lparr>validated := [''mac'' \<mapsto> PNum 1],
     nic := Some (Nic [''mac'' \<mapsto> PNum 1]), err := Some err_nic_behind_ip\<rparr>"

text \<open>
  For the loop of \<^verbatim>\<open>nicAndIP\<close>. \<open>runs_loop E c f ps\<close>: on the request \<open>c\<close>, \<^verbatim>\<open>nicAndIP\<close>
  passes its assertions and runs the loop with the NIC function \<open>f\<close> and the provisioners
  \<open>ps\<close>. \<open>turn_fails n E f ps c e ps' c'\<close>: the turn from \<open>c\<close> ends with the error \<open>e\<close>,
  the provisioners and the context being \<open>ps'\<close> and \<open>c'\<close> then, and the loop, with
  \<open>Suc n\<close> turns to take, ends at once with \<open>e\<close> when the stop flag of \<open>e\<close> is set
  (and \<^verbatim>\<open>nicAndIP\<close> returns \<open>e\<close> then), and otherwise stores \<open>e\<close> in \<^verbatim>\<open>opts.err\<close> and
  takes the remaining turns from there.
\<close>

definition runs_loop :: "'w env \<Rightarrow> 'w ctx \<Rightarrow> nic_fn \<Rightarrow> provisioner list \<Rightarrow> bool" where
  "runs_loop E c f ps =
     (nicFn c = Some f \<and>
      (case baseParams c of None \<Rightarrow> False | Some bp \<Rightarrow> provisioners_of E bp c = Inr ps))"

definition turn_fails ::
  "nat \<Rightarrow> 'w env \<Rightarrow> nic_fn \<Rightarrow> provisioner list \<Rightarrow> 'w ctx \<Rightarrow> napi_error \<Rightarrow>
     provisioner list \<Rightarrow> 'w ctx \<Rightarrow> bool" where
  "turn_fails n E f ps c e ps' c' =
     (iteration E f ps c = (Failed e, ps', c') \<and>
      repeat (Suc n) E f ps c =
        (if err_stop e then Some (Error e, ps', c')
         else repeat n E f ps' (c'\<lparr>err := Some e\<rparr>)) \<and>
      (err_stop e \<and> runs_loop E c f ps \<longrightarrow> nicAndIP (Suc n) E c = Some (Error e, c')))"

text \<open>
  A second turn of the request with MAC 1 and no IP: the NIC was built in the first turn,
  and the commit failed on its record in the NIC bucket.
\<close>

definition ctx_mac_taken :: "nat ctx" where
  "ctx_mac_taken = ctx_mac_only\<lparr>nic := Some nic_mac1,
     err := Some (NapiError (EtagConflictError ''napi_nics'' ''1'') False None)\<rparr>"

text \<open>
  An address on a fabric network, a request for that address, and an environment in which
  the compute nodes of an overlay cannot be listed.
\<close>

definition net_fabric1 :: network where
  "net_fabric1 = \<lparr>net_uuid = ''F1'', net_fabric = True, net_vnet_id = 7\<rparr>"

definition ip_on_fabric :: ip where
  "ip_on_fabric = ip10\<lparr>ip_network := net_fabric1\<rparr>"

definition err_listing :: napi_error where
  "err_listing = NapiError (OtherError ''InternalError'') False None"

definition env_no_listing :: "nat env" where
  "env_no_listing = env1\<lparr>common_listVnetCns := (\<lambda>v w. (Inl err_listing, w + 1))\<rparr>"

definition ctx_want_fabric_ip :: "nat ctx" where
  "ctx_want_fabric_ip = ctx1\<lparr>validated := [''mac'' \<mapsto> PNum 1, ''_ip'' \<mapsto> PIP ip_on_fabric],
     provisionableIPs := Some [ip_on_fabric], nicFn := Some macSuppliedFn,
     baseParams := Some Map.empty\<rparr>"

text \<open>
  For \<^verbatim>\<open>randomMAC\<close>: the attempts counted so far (\<^verbatim>\<open>opts.macTries\<close>, 0 when the property
  is not there yet), the largest MAC number that the function will accept
  (\<^verbatim>\<open>opts.maxMac\<close>, set from \<^verbatim>\<open>util_mac.maxOUInum\<close> when it is not there yet), and the
  error \<^verbatim>\<open>new restify.InternalError('no more free MAC addresses')\<close> with its stop flag.
\<close>

definition attempts :: "'w ctx \<Rightarrow> nat" where
  "attempts c = (case macTries c of None \<Rightarrow> 0 | Some t \<Rightarrow> t)"

definition mac_limit :: "'w env \<Rightarrow> 'w ctx \<Rightarrow> nat" where
  "mac_limit E c = (case maxMac c of None \<Rightarrow> maxOUInum E | Some m \<Rightarrow> if m = 0 then maxOUInum E else m)"

definition no_free_mac :: napi_error where
  "no_free_mac = NapiError (InternalError (Literal ''no more free MAC addresses'')) True None"

text \<open>
  The end of both branches of \<^verbatim>\<open>randomMAC\<close> that build a NIC: \<^verbatim>\<open>opts.nic = new
  Nic(validated)\<close>, then the block that links the IP. It is used to state and prove facts
  about \<^verbatim>\<open>randomMAC\<close> branch by branch.
\<close>

definition build_nic :: "'w env \<Rightarrow> 'w ctx \<Rightarrow> outcome \<times> 'w ctx" where
  "build_nic E c =
     (case new_Nic E (validated c) of
        Inl x \<Rightarrow> (Thrown x, c)
      | Inr n0 \<Rightarrow>
          (case linkIP n0 (ips c) of
             Inl x \<Rightarrow> (Thrown x, c\<lparr>nic := Some n0\<rparr>)
           | Inr n1 \<Rightarrow> (Done, c\<lparr>nic := Some n1\<rparr>)))"

text \<open>
  The MAC of the parameters, if there is one, is a number of the OUI, whose numbers are
  \<open>lo\<close> to \<^verbatim>\<open>util_mac.maxOUInum\<close>.
\<close>

definition within_oui :: "nat \<Rightarrow> 'w env \<Rightarrow> params \<Rightarrow> bool" where
  "within_oui lo E v =
     (case v ''mac'' of
        None \<Rightarrow> True
      | Some (PNum m) \<Rightarrow> lo \<le> m \<and> m \<le> maxOUInum E
      | Some _ \<Rightarrow> False)"

text \<open>
  A request whose MAC 150 collided in the NIC bucket, one whose MAC 200, the last of the
  OUI, collided, one whose commit failed on an IP, and one that has used up its attempts.
\<close>

definition err_nic_conflict :: napi_error where
  "err_nic_conflict = NapiError (EtagConflictError ''napi_nics'' ''150'') False None"

definition ctx_mac_150 :: "nat ctx" where
  "ctx_mac_150 = ctx1\<lparr>validated := [''mac'' \<mapsto> PNum 150], macTries := Some 1,
     maxMac := Some 200, startMac := Some 150, err := Some err_nic_conflict, world := 7\<rparr>"

definition ctx_mac_200 :: "nat ctx" where
  "ctx_mac_200 = ctx_mac_150\<lparr>validated := [''mac'' \<mapsto> PNum 200]\<rparr>"

definition ctx_mac_kept :: "nat ctx" where
  "ctx_mac_kept = ctx_mac_150\<lparr>err := Some err_ip10_conflict\<rparr>"

definition ctx_mac_spent :: "nat ctx" where
  "ctx_mac_spent = ctx_mac_150\<lparr>macTries := Some 4\<rparr>"

text \<open>
  A stage leaves the batch, the selected IPs, the IPs to free and the existing NIC as they
  are.
\<close>

definition same_request :: "'w ctx \<Rightarrow> 'w ctx \<Rightarrow> bool" where
  "same_request c c' =
     (batch c' = batch c \<and> ips c' = ips c \<and> removeIPs c' = removeIPs c \<and>
      existingNic c' = existingNic c)"


text \<open>
  The context holds a NIC that carries the validated parameters and is linked to the IP
  selected in this turn, and to its network, if there is one.
\<close>

definition nic_built :: "'w ctx \<Rightarrow> bool" where
  "nic_built c =
     (case nic c of
        None \<Rightarrow> False
      | Some n \<Rightarrow>
          nic_params n = validated c \<and>
          nic_ip n = (case ips c of [] \<Rightarrow> None | i # _ \<Rightarrow> Some i) \<and>
          nic_network n = map_option ip_network (nic_ip n))"

text \<open>
  A request that has counted four attempts, the last with MAC 153, and whose commit then
  failed on an IP.
\<close>

definition ctx_mac_past_limit :: "nat ctx" where
  "ctx_mac_past_limit = ctx_mac_150\<lparr>validated := [''mac'' \<mapsto> PNum 153], macTries := Some 4,
     err := Some err_ip10_conflict\<rparr>"

text \<open>
  A request for a NIC with a generated MAC on \<open>net1\<close>, in an environment where the first
  draw is 150, the network offers \<open>ip10\<close> and then \<open>ip11\<close>, and the store refuses
  the first four batches: three times with a version conflict on the record of the NIC
  (MACs 150, 151 and 152 are taken), then with a version conflict on the record of \<open>ip10\<close>.
\<close>

definition err_mac_conflict :: "string \<Rightarrow> napi_error" where
  "err_mac_conflict k = NapiError (EtagConflictError ''napi_nics'' k) False None"

definition env_busy :: "nat env" where
  "env_busy = env1\<lparr>
     nextIPonNetwork := (\<lambda>bp n w. (Inr (if w = 0 then ip10 else ip11), w + 1)),
     randomNum := (\<lambda>w. (150, w + 1)),
     commitBatch := (\<lambda>b w.
        (if w = 2 then Some (err_mac_conflict ''150'')
         else if w = 3 then Some (err_mac_conflict ''151'')
         else if w = 4 then Some (err_mac_conflict ''152'')
         else if w = 5 then Some err_ip10_conflict
         else None, w + 1))\<rparr>"

definition ctx_random_on_net1 :: "nat ctx" where
  "ctx_random_on_net1 = ctx1\<lparr>validated := [''network'' \<mapsto> PNet net1],
     nicFn := Some randomMACFn, baseParams := Some Map.empty\<rparr>"

definition nic_153_on_ip11 :: nic where
  "nic_153_on_ip11 = (Nic [''network'' \<mapsto> PNet net1, ''mac'' \<mapsto> PNum 153])
     \<lparr>nic_ip := Some ip11, nic_network := Some net1\<rparr>"

text \<open>
  For the pool provisioner: the condition under which it moves on to the next network (no
  network is selected yet, or the previous error is \<open>SubnetFullError\<close> for the selected
  network), and the error that \<^verbatim>\<open>nextNetwork\<close> builds when the queue is used up.
\<close>

definition moves_on :: "provisioner \<Rightarrow> 'w ctx \<Rightarrow> bool" where
  "moves_on p c = (p_network p = NetNull \<or> haveNetFailure p (err c) = Inr True)"


text \<open>\<^verbatim>\<open>opts.baseParams\<close>, as handed to \<^verbatim>\<open>nextIPonNetwork\<close> inside \<^verbatim>\<open>opts\<close>.\<close>

definition base_of :: "'w ctx \<Rightarrow> params" where
  "base_of c = (case baseParams c of None \<Rightarrow> Map.empty | Some b \<Rightarrow> b)"

text \<open>A request on the pool of the networks \<open>N1\<close> and \<open>N2\<close>.\<close>

definition pool12 :: pool where
  "pool12 = \<lparr>pool_networks = [''N1'', ''N2'']\<rparr>"

definition ctx_on_pool :: "nat ctx" where
  "ctx_on_pool = ctx1\<lparr>validated := [''mac'' \<mapsto> PNum 1, ''network_pool'' \<mapsto> PPool pool12],
     nicFn := Some macSuppliedFn, baseParams := Some Map.empty\<rparr>"

text \<open>
  A NIC of owner \<open>B1\<close> on \<open>ip10\<close>, which \<open>B1\<close> owns, and one on \<open>ip11\<close>, which has no
  owner; an environment whose store holds the NIC that the request names.
\<close>

definition nic_on_ip10 :: nic where
  "nic_on_ip10 = \<lparr>nic_params = [''mac'' \<mapsto> PNum 1, ''belongs_to_uuid'' \<mapsto> PStr ''B1''],
     nic_ip = Some ip10, nic_network = Some net1, nic_vnetCns = None, nic_etag = Some ''e1''\<rparr>"

definition nic_on_ip11 :: nic where
  "nic_on_ip11 = nic_on_ip10\<lparr>nic_ip := Some ip11\<rparr>"

definition env_with :: "nic \<Rightarrow> nat env" where
  "env_with n = env1\<lparr>getNic := (\<lambda>p w. (Inr n, w + 1))\<rparr>"

text \<open>The warning that \<^verbatim>\<open>delIP\<close> logs.\<close>

definition owner_warning :: log_entry where
  "owner_warning = LogWarn ''nic: delete: IP and NIC belongs_to_uuid do not match''"

text \<open>\<^verbatim>\<open>opts._removeIPs\<close> as a list: nothing when the property is not there.\<close>

definition removed :: "'w ctx \<Rightarrow> ip list" where
  "removed c = (case removeIPs c of None \<Rightarrow> [] | Some olds \<Rightarrow> olds)"

text \<open>
  The record of \<open>10.0.0.10\<close> after another owner, \<open>B2\<close>, has taken it over; the NIC of
  \<open>B1\<close> that still points to it; an update of a NIC to the address \<open>ip11\<close>.
\<close>

definition ip10_of_b2 :: ip where
  "ip10_of_b2 = ip10\<lparr>ip_belongs_to_uuid := Some ''B2''\<rparr>"

definition nic_on_lost_ip :: nic where
  "nic_on_lost_ip = nic_on_ip10\<lparr>nic_ip := Some ip10_of_b2\<rparr>"

definition ctx_update_to_ip11 :: "nic \<Rightarrow> nat ctx" where
  "ctx_update_to_ip11 n = ctx1\<lparr>existingNic := Some n, validated := [''_ip'' \<mapsto> PIP ip11]\<rparr>"

text \<open>An update of the model of the NIC with MAC 1.\<close>

definition ctx_update_model :: "nat ctx" where
  "ctx_update_model = ctx1\<lparr>params := [''mac'' \<mapsto> PNum 1, ''model'' \<mapsto> PStr ''virtio'']\<rparr>"

section \<open>Specific-IP provisioner\<close>

lemma haveEtagFailure_IPProvision:
  "haveEtagFailure E (IPProvision i fld) (Some e) =
     (case findEtagCause e of
        None \<Rightarrow> Inr False
      | Some (cb, ck) \<Rightarrow>
          (case bucketName E None of
             None \<Rightarrow> Inl (TypeError ''bucketName'')
           | Some b \<Rightarrow> Inr (cb = b \<and> ck = key i)))"
  by (simp add: haveEtagFailure_def IPProvision_def split: option.splits)

lemma provisionIP_own_conflict_not_reported:
  assumes "bucketName E (Some (net_uuid (ip_network i))) = Some b"
    and "bucketName E None \<noteq> Some b"
    and "findEtagCause e = Some (b, key i)"
    and "err c = Some e"
  shows "fst (provisionIP E (IPProvision i fld) c) \<noteq> Failed x"
proof -
  have ip: "p_ip (IPProvision i fld) = Some i"
    by (simp add: IPProvision_def)
  show ?thesis
  proof (cases "bucketName E None")
    case None
    with assms(3,4) show ?thesis
      by (simp add: provisionIP_def haveEtagFailure_IPProvision)
  next
    case (Some b')
    with assms(2) have "b \<noteq> b'" by auto
    with Some assms(3,4) ip show ?thesis
      by (simp add: provisionIP_def haveEtagFailure_IPProvision batchIP_def)
  qed
qed

text \<open>
  C1. The claim: when the previous error is a version conflict on the key of this IP in
  the bucket of this IP's network, \<^verbatim>\<open>IPProvision.provision\<close> fails with a stopping
  duplicate-parameter error on the requesting field, and in every other case it adds the
  IP again and succeeds.

  The code does not do this. The constructor stores \<^verbatim>\<open>ip.params.network.uuid\<close> in
  \<^verbatim>\<open>this.network\<close>, and \<^verbatim>\<open>haveEtagFailure\<close> reads \<^verbatim>\<open>this.network.uuid\<close>, which is
  \<^verbatim>\<open>undefined\<close> on a string: the bucket that is compared is \<^verbatim>\<open>bucketName(undefined)\<close>.
  With \<open>ip10\<close> on network \<open>N1\<close> and a conflict on key \<open>10.0.0.10\<close> of bucket
  \<open>napi_ips_N1\<close>, the provisioner throws where \<open>bucketName\<close> throws on \<^verbatim>\<open>undefined\<close>, and
  adds the IP again where \<open>bucketName\<close> formats \<^verbatim>\<open>undefined\<close> into a name. In neither
  case does it report the address as in use.
\<close>

theorem provisionIP_misses_conflict_on_own_ip:
  "findEtagCause err_ip10_conflict =
     Some (the (bucketName env1 (Some (net_uuid (ip_network ip10)))), key ip10) \<and>
   fst (provisionIP env1 (IPProvision ip10 None) (ctx1\<lparr>err := Some err_ip10_conflict\<rparr>)) =
     Thrown (TypeError ''bucketName'') \<and>
   provisionIP env2 (IPProvision ip10 None) (ctx1\<lparr>err := Some err_ip10_conflict\<rparr>) =
     (Done, IPProvision ip10 None,
      ctx1\<lparr>err := Some err_ip10_conflict, ips := [ip10], batch := [IPBatch ip10]\<rparr>)"
  by (simp add: provisionIP_def haveEtagFailure_def err_ip10_conflict_def env1_def
      env2_def ip10_def net1_def key_def batchIP_def IPProvision_def ctx1_def)

section \<open>NIC selection with a supplied MAC\<close>

text \<open>
  C2, as the specification states it, fails: \<^verbatim>\<open>nicEtagFail\<close> looks at the bucket of the
  conflict only, never at its key. Here the conflict is on key 2 of the NIC bucket, the
  request's MAC is 1, and \<^verbatim>\<open>macSupplied\<close> still stops with the duplicate-MAC error.
\<close>

theorem macSupplied_stops_on_other_key:
  "fst (macSupplied env1 ctx_other_nic_conflict) = Failed mac_duplicate \<and>
   \<not> mac_key_conflict env1 ctx_other_nic_conflict"
  by (simp add: macSupplied_def ctx_other_nic_conflict_def ctx1_def env1_def
      mac_duplicate_def nicEtagFail_def mac_key_conflict_def toString.simps)

lemma findEtagCause_first:
  "findEtagCause e = (case etag_conflicts e of [] \<Rightarrow> None | x # _ \<Rightarrow> Some x)"
proof (induction e rule: etag_conflicts.induct)
  case (1 kind s)
  show ?case by (cases kind) simp_all
next
  case (2 kind s e)
  then show ?case by (cases kind) simp_all
qed

text \<open>
  C2, amended. \<^verbatim>\<open>nicEtagFail\<close> holds of the previous error exactly when the first
  \<^verbatim>\<open>EtagConflictError\<close> on its cause chain, the error itself included, is a conflict in
  the NIC bucket; its key is not looked at, and a conflict in the NIC bucket that stands
  behind a conflict in another bucket does not count. \<^verbatim>\<open>macSupplied\<close> fails if and only
  if a NIC was built in an earlier turn (\<^verbatim>\<open>opts.nic\<close> is set) and \<^verbatim>\<open>nicEtagFail\<close> holds of
  the previous error, and then the error is the stopping duplicate-parameter error on
  \<open>mac\<close>. Otherwise, when the constructor accepts the validated parameters and at most one
  IP was chosen in this turn, it builds the NIC from the validated parameters and links
  that IP and its network, if there is one.
\<close>

theorem macSupplied_stops_iff_nic_bucket_conflict:
  "(nicEtagFail E (err c) \<longleftrightarrow>
      (\<exists>e k rest. err c = Some e \<and> etag_conflicts e = (BUCKET_name E, k) # rest)) \<and>
   (fst (macSupplied E c) = Failed e' \<longleftrightarrow>
      e' = mac_duplicate \<and> nic c \<noteq> None \<and> nicEtagFail E (err c)) \<and>
   (\<not> (nic c \<noteq> None \<and> nicEtagFail E (err c)) \<longrightarrow>
    Nic_check E (validated c) = None \<longrightarrow> length (ips c) \<le> 1 \<longrightarrow>
      (\<exists>n. macSupplied E c = (Done, c\<lparr>nic := Some n\<rparr>) \<and>
           nic_params n = validated c \<and>
           nic_ip n = (case ips c of [] \<Rightarrow> None | i # _ \<Rightarrow> Some i) \<and>
           nic_network n = map_option ip_network (nic_ip n)))"
proof (intro conjI impI)
  show "nicEtagFail E (err c) \<longleftrightarrow>
      (\<exists>e k rest. err c = Some e \<and> etag_conflicts e = (BUCKET_name E, k) # rest)"
    by (auto simp: nicEtagFail_def findEtagCause_first split: option.splits list.splits)
next
  show "fst (macSupplied E c) = Failed e' \<longleftrightarrow>
      e' = mac_duplicate \<and> nic c \<noteq> None \<and> nicEtagFail E (err c)"
    by (auto simp: macSupplied_def mac_duplicate_def split: sum.splits)
next
  assume no: "\<not> (nic c \<noteq> None \<and> nicEtagFail E (err c))"
    and ok: "Nic_check E (validated c) = None"
    and one: "length (ips c) \<le> 1"
  show "\<exists>n. macSupplied E c = (Done, c\<lparr>nic := Some n\<rparr>) \<and>
           nic_params n = validated c \<and>
           nic_ip n = (case ips c of [] \<Rightarrow> None | i # _ \<Rightarrow> Some i) \<and>
           nic_network n = map_option ip_network (nic_ip n)"
  proof (cases "ips c")
    case Nil
    with no ok show ?thesis
      by (auto simp: macSupplied_def new_Nic_def linkIP_def Nic_def isFabric_def)
  next
    case (Cons i rest)
    with one have "rest = []" by simp
    with Cons no ok show ?thesis
      by (auto simp: macSupplied_def new_Nic_def linkIP_def Nic_def isFabric_def)
  qed
qed


theorem macSupplied_stops_iff_nic_bucket_conflict_witness:
  "\<not> (nic ctx_first_turn \<noteq> None \<and> nicEtagFail env1 (err ctx_first_turn)) \<and>
   Nic_check env1 (validated ctx_first_turn) = None \<and>
   length (ips ctx_first_turn) \<le> 1 \<and>
   (\<exists>n. macSupplied env1 ctx_first_turn = (Done, ctx_first_turn\<lparr>nic := Some n\<rparr>) \<and>
        nic_params n = [''mac'' \<mapsto> PNum 1] \<and> nic_ip n = Some ip10 \<and>
        nic_network n = Some net1) \<and>
   nic ctx_other_nic_conflict \<noteq> None \<and>
   etag_conflicts (the (err ctx_other_nic_conflict)) = [(BUCKET_name env1, ''2'')] \<and>
   fst (macSupplied env1 ctx_other_nic_conflict) = Failed mac_duplicate \<and>
   nic ctx_nic_behind_ip \<noteq> None \<and>
   etag_conflicts (the (err ctx_nic_behind_ip)) =
     [(''napi_ips_N1'', ''10.0.0.10''), (BUCKET_name env1, ''1'')] \<and>
   \<not> nicEtagFail env1 (err ctx_nic_behind_ip) \<and>
   fst (macSupplied env1 ctx_nic_behind_ip) = Done"
proof -
  have pre: "\<not> (nic ctx_first_turn \<noteq> None \<and> nicEtagFail env1 (err ctx_first_turn))"
    "Nic_check env1 (validated ctx_first_turn) = None"
    "length (ips ctx_first_turn) \<le> 1"
    by (simp_all add: ctx_first_turn_def ctx1_def env1_def)
  from macSupplied_stops_iff_nic_bucket_conflict [where E = env1 and c = ctx_first_turn,
      THEN conjunct2, THEN conjunct2, rule_format, OF pre]
  obtain n where n: "macSupplied env1 ctx_first_turn = (Done, ctx_first_turn\<lparr>nic := Some n\<rparr>)"
    "nic_params n = validated ctx_first_turn"
    "nic_ip n = (case ips ctx_first_turn of [] \<Rightarrow> None | i # _ \<Rightarrow> Some i)"
    "nic_network n = map_option ip_network (nic_ip n)"
    by blast
  have "nic_params n = [''mac'' \<mapsto> PNum 1]" "nic_ip n = Some ip10" "nic_network n = Some net1"
    using n(2-4) by (simp_all add: ctx_first_turn_def ctx1_def ip10_def)
  with n(1) have built: "\<exists>n. macSupplied env1 ctx_first_turn = (Done, ctx_first_turn\<lparr>nic := Some n\<rparr>) \<and>
        nic_params n = [''mac'' \<mapsto> PNum 1] \<and> nic_ip n = Some ip10 \<and>
        nic_network n = Some net1"
    by blast
  note O = macSupplied_stops_iff_nic_bucket_conflict [where E = env1
      and c = ctx_other_nic_conflict and e' = mac_duplicate]
  have other: "nic ctx_other_nic_conflict \<noteq> None"
    "err ctx_other_nic_conflict = Some (the (err ctx_other_nic_conflict))"
    "etag_conflicts (the (err ctx_other_nic_conflict)) = [(BUCKET_name env1, ''2'')]"
    by (simp_all add: ctx_other_nic_conflict_def ctx1_def env1_def)
  from other(2,3) have "nicEtagFail env1 (err ctx_other_nic_conflict)"
    unfolding O [THEN conjunct1] by blast
  with other(1) have stops: "fst (macSupplied env1 ctx_other_nic_conflict) = Failed mac_duplicate"
    unfolding O [THEN conjunct2, THEN conjunct1] by simp
  have behind: "nic ctx_nic_behind_ip \<noteq> None"
    "err ctx_nic_behind_ip = Some err_nic_behind_ip"
    "etag_conflicts err_nic_behind_ip =
       [(''napi_ips_N1'', ''10.0.0.10''), (BUCKET_name env1, ''1'')]"
    "Nic_check env1 (validated ctx_nic_behind_ip) = None"
    "length (ips ctx_nic_behind_ip) \<le> 1"
    by (simp_all add: ctx_nic_behind_ip_def err_nic_behind_ip_def ctx1_def env1_def)
  have bucket: "BUCKET_name env1 \<noteq> ''napi_ips_N1''"
    by (simp add: env1_def)
  note B = macSupplied_stops_iff_nic_bucket_conflict [of env1 ctx_nic_behind_ip]
  have "\<not> (\<exists>e k rest. err ctx_nic_behind_ip = Some e \<and>
      etag_conflicts e = (BUCKET_name env1, k) # rest)"
    using bucket by (simp add: behind(2,3))
  then have nofail: "\<not> nicEtagFail env1 (err ctx_nic_behind_ip)"
    unfolding B [THEN conjunct1] .
  then have "\<not> (nic ctx_nic_behind_ip \<noteq> None \<and> nicEtagFail env1 (err ctx_nic_behind_ip))"
    by simp
  from B [THEN conjunct2, THEN conjunct2, rule_format, OF this behind(4,5)]
  have goes_on: "fst (macSupplied env1 ctx_nic_behind_ip) = Done"
    by auto
  have chain: "etag_conflicts (the (err ctx_nic_behind_ip)) =
     [(''napi_ips_N1'', ''10.0.0.10''), (BUCKET_name env1, ''1'')]"
    using behind(2,3) by simp
  from pre built other(1,3) stops behind(1) chain nofail goes_on show ?thesis
    by (intro conjI)
qed

section \<open>NIC selection with a generated MAC\<close>

lemma build_nic_frame:
  "validated (snd (build_nic E c)) = validated c"
  "macTries (snd (build_nic E c)) = macTries c"
  "startMac (snd (build_nic E c)) = startMac c"
  "maxMac (snd (build_nic E c)) = maxMac c"
  "world (snd (build_nic E c)) = world c"
  "ips (snd (build_nic E c)) = ips c"
  "same_request c (snd (build_nic E c))"
  by (simp_all add: build_nic_def same_request_def split: sum.splits)

lemma build_nic_done:
  "fst (build_nic E c) = Done \<Longrightarrow>
   \<exists>n. nic (snd (build_nic E c)) = Some n \<and> nic_params n = validated c"
  by (auto simp: build_nic_def new_Nic_def linkIP_def Nic_def split: sum.splits option.splits if_splits)

lemma randomMAC_reuse_eq:
  "truthy (validated c ''mac'') \<Longrightarrow> \<not> nicEtagFail E (err c) \<Longrightarrow>
   randomMAC E c = build_nic E (if macTries c = None then c\<lparr>macTries := Some 0\<rparr> else c)"
  by (simp add: randomMAC_def build_nic_def Let_def)

lemma randomMAC_exhausted_eq:
  "\<not> truthy (validated c ''mac'') \<or> nicEtagFail E (err c) \<Longrightarrow> attempts c > MAC_RETRIES E \<Longrightarrow>
   randomMAC E c = (Failed no_free_mac, if macTries c = None then c\<lparr>macTries := Some 0\<rparr> else c)"
  by (auto simp add: randomMAC_def attempts_def no_free_mac_def Let_def split: option.splits)

lemma randomMAC_first_eq:
  assumes "\<not> truthy (validated c ''mac'')" "attempts c \<le> MAC_RETRIES E"
    "randomNum E (world c) = (r, w)"
  shows "randomMAC E c =
     build_nic E (c\<lparr>macTries := Some (attempts c + 1), maxMac := Some (mac_limit E c),
       validated := (validated c)(''mac'' \<mapsto>
          PNum (if r \<le> mac_limit E c then r else fst (randomNum E w))),
       startMac := Some r,
       world := (if r \<le> mac_limit E c then w else snd (randomNum E w))\<rparr>)"
proof -
  have lim: "maxMac c = None \<or> maxMac c = Some 0 \<Longrightarrow> mac_limit E c = maxOUInum E"
    by (auto simp: mac_limit_def)
  have lim': "\<not> (maxMac c = None \<or> maxMac c = Some 0) \<Longrightarrow> maxMac c = Some (mac_limit E c)"
    by (auto simp: mac_limit_def split: option.splits)
  show ?thesis
  proof (cases "maxMac c = None \<or> maxMac c = Some 0")
    case True
    with assms lim [OF True] show ?thesis
      by (cases "macTries c"; cases "randomNum E w")
         (auto simp add: randomMAC_def build_nic_def attempts_def Let_def not_less
           split: sum.splits prod.splits)
  next
    case False
    with assms lim' [OF False] show ?thesis
      by (cases "macTries c"; cases "randomNum E w")
         (auto simp add: randomMAC_def build_nic_def attempts_def Let_def not_less
           split: sum.splits prod.splits)
  qed
qed

lemma randomMAC_next_eq:
  assumes "validated c ''mac'' = Some (PNum m)" "m \<noteq> 0" "nicEtagFail E (err c)"
    "attempts c \<le> MAC_RETRIES E"
  shows "randomMAC E c =
     build_nic E (c\<lparr>macTries := Some (attempts c + 1), maxMac := Some (mac_limit E c),
       validated := (validated c)(''mac'' \<mapsto>
          PNum (if m + 1 \<le> mac_limit E c then m + 1 else fst (randomNum E (world c)))),
       world := (if m + 1 \<le> mac_limit E c then world c else snd (randomNum E (world c)))\<rparr>)"
proof -
  have lim: "maxMac c = None \<or> maxMac c = Some 0 \<Longrightarrow> mac_limit E c = maxOUInum E"
    by (auto simp: mac_limit_def)
  have lim': "\<not> (maxMac c = None \<or> maxMac c = Some 0) \<Longrightarrow> maxMac c = Some (mac_limit E c)"
    by (auto simp: mac_limit_def split: option.splits)
  show ?thesis
  proof (cases "maxMac c = None \<or> maxMac c = Some 0")
    case True
    with assms lim [OF True] show ?thesis
      by (cases "macTries c"; cases "randomNum E (world c)")
         (auto simp add: randomMAC_def build_nic_def attempts_def Let_def not_less
           split: sum.splits prod.splits)
  next
    case False
    with assms lim' [OF False] show ?thesis
      by (cases "macTries c"; cases "randomNum E (world c)")
         (auto simp add: randomMAC_def build_nic_def attempts_def Let_def not_less
           split: sum.splits prod.splits)
  qed
qed

lemma randomMAC_done_via:
  assumes "randomMAC E c = build_nic E c1" "fst (randomMAC E c) = Done"
  shows "\<exists>n. nic (snd (randomMAC E c)) = Some n \<and>
           nic_params n = validated (snd (randomMAC E c))"
  using assms build_nic_done [of E c1] by (simp add: build_nic_frame)

lemma randomMAC_not_number:
  assumes "truthy (validated c ''mac'')" "\<forall>m. validated c ''mac'' \<noteq> Some (PNum m)"
    "nicEtagFail E (err c)" "attempts c \<le> MAC_RETRIES E"
  shows "fst (randomMAC E c) = Thrown (TypeError ''validated.mac is not a number'') \<and>
    same_request c (snd (randomMAC E c))"
proof (cases "validated c ''mac''")
  case None
  with assms(1) show ?thesis by simp
next
  case (Some v)
  with assms show ?thesis
    by (cases v; cases "macTries c"; cases "maxMac c = None \<or> maxMac c = Some 0")
       (simp_all add: randomMAC_def attempts_def Let_def not_less same_request_def)
qed

lemma randomMAC_within_oui:
  assumes draws: "\<forall>w. lo \<le> fst (randomNum E w) \<and> fst (randomNum E w) \<le> maxOUInum E"
    and lim: "mac_limit E c = maxOUInum E"
    and inv: "within_oui lo E (validated c)"
  shows "within_oui lo E (validated (snd (randomMAC E c)))"
proof (cases "truthy (validated c ''mac'')")
  case True
  with inv obtain m where m: "validated c ''mac'' = Some (PNum m)" "m \<noteq> 0" "lo \<le> m"
    by (auto simp: within_oui_def split: option.splits pval.splits)
  show ?thesis
  proof (cases "nicEtagFail E (err c)")
    case False
    with True inv show ?thesis
      by (simp add: randomMAC_reuse_eq build_nic_frame)
  next
    case etag: True
    show ?thesis
    proof (cases "attempts c \<le> MAC_RETRIES E")
      case True
      from randomMAC_next_eq [OF m(1,2) etag True] draws lim m(3) show ?thesis
        by (simp add: build_nic_frame within_oui_def)
    next
      case False
      with etag inv show ?thesis
        by (simp add: randomMAC_exhausted_eq)
    qed
  qed
next
  case False
  obtain r w where rw: "randomNum E (world c) = (r, w)"
    by (cases "randomNum E (world c)") auto
  with draws have r: "lo \<le> r" by (metis fst_conv)
  show ?thesis
  proof (cases "attempts c \<le> MAC_RETRIES E")
    case True
    from randomMAC_first_eq [OF False True rw] draws lim r show ?thesis
      by (simp add: build_nic_frame within_oui_def)
  next
    case exh: False
    with False inv show ?thesis
      by (simp add: randomMAC_exhausted_eq)
  qed
qed

lemma randomMAC_cases:
  "(\<exists>c1. randomMAC E c = build_nic E c1 \<and> ips c1 = ips c \<and> same_request c c1) \<or>
   fst (randomMAC E c) = Failed no_free_mac \<and> same_request c (snd (randomMAC E c)) \<or>
   fst (randomMAC E c) = Thrown (TypeError ''validated.mac is not a number'') \<and>
     same_request c (snd (randomMAC E c))"
proof (cases "truthy (validated c ''mac'')")
  case True
  show ?thesis
  proof (cases "nicEtagFail E (err c)")
    case False
    from randomMAC_reuse_eq [OF True False] show ?thesis by (auto simp: same_request_def)
  next
    case etag: True
    show ?thesis
    proof (cases "attempts c \<le> MAC_RETRIES E")
      case le: True
      show ?thesis
      proof (cases "\<exists>m. validated c ''mac'' = Some (PNum m)")
        case True
        then obtain m where "validated c ''mac'' = Some (PNum m)" ..
        with \<open>truthy (validated c ''mac'')\<close> have m: "validated c ''mac'' = Some (PNum m)" "m \<noteq> 0"
          by auto
        from randomMAC_next_eq [OF m etag le] show ?thesis by (auto simp: same_request_def)
      next
        case False
        with randomMAC_not_number [OF True _ etag le] show ?thesis by simp
      qed
    next
      case False
      with etag show ?thesis by (simp add: randomMAC_exhausted_eq same_request_def)
    qed
  qed
next
  case False
  obtain r w where rw: "randomNum E (world c) = (r, w)"
    by (cases "randomNum E (world c)") auto
  show ?thesis
  proof (cases "attempts c \<le> MAC_RETRIES E")
    case True
    from randomMAC_first_eq [OF False True rw] show ?thesis by (auto simp: same_request_def)
  next
    case exh: False
    with False show ?thesis by (simp add: randomMAC_exhausted_eq same_request_def)
  qed
qed

lemma build_nic_not_failed: "fst (build_nic E c) \<noteq> Failed e"
  by (simp add: build_nic_def split: sum.splits)

lemma build_nic_ok:
  assumes "Nic_check E (validated c) = None" "length (ips c) \<le> 1"
  shows "fst (build_nic E c) = Done \<and> nic_built (snd (build_nic E c))"
proof (cases "ips c")
  case Nil
  with assms show ?thesis
    by (simp add: build_nic_def new_Nic_def linkIP_def Nic_def nic_built_def)
next
  case (Cons i rest)
  with assms(2) have "rest = []" by simp
  with Cons assms(1) show ?thesis
    by (simp add: build_nic_def new_Nic_def linkIP_def Nic_def nic_built_def)
qed

lemma randomMAC_builds:
  assumes "truthy (validated c ''mac'') \<and> \<not> nicEtagFail E (err c) \<or> attempts c \<le> MAC_RETRIES E"
    and "truthy (validated c ''mac'') \<longrightarrow> (\<exists>m. validated c ''mac'' = Some (PNum m))"
  shows "\<exists>c1. randomMAC E c = build_nic E c1 \<and> ips c1 = ips c"
proof (cases "truthy (validated c ''mac'')")
  case True
  with assms(2) obtain m where m: "validated c ''mac'' = Some (PNum m)" by auto
  with True have m0: "m \<noteq> 0" by simp
  show ?thesis
  proof (cases "nicEtagFail E (err c)")
    case False
    from randomMAC_reuse_eq [OF True False] show ?thesis by auto
  next
    case etag: True
    with assms(1) have "attempts c \<le> MAC_RETRIES E" by simp
    from randomMAC_next_eq [OF m m0 etag this] show ?thesis by auto
  qed
next
  case False
  with assms(1) have le: "attempts c \<le> MAC_RETRIES E" by simp
  obtain r w where rw: "randomNum E (world c) = (r, w)"
    by (cases "randomNum E (world c)") auto
  from randomMAC_first_eq [OF False le rw] show ?thesis by auto
qed

lemma randomMAC_fails_iff:
  "fst (randomMAC E c) = Failed e \<longleftrightarrow>
     e = no_free_mac \<and> (\<not> truthy (validated c ''mac'') \<or> nicEtagFail E (err c)) \<and>
     attempts c > MAC_RETRIES E"
proof (cases "(\<not> truthy (validated c ''mac'') \<or> nicEtagFail E (err c)) \<and>
     attempts c > MAC_RETRIES E")
  case True
  then show ?thesis
    using randomMAC_exhausted_eq [of c E] by auto
next
  case False
  have "fst (randomMAC E c) \<noteq> Failed e"
  proof (cases "truthy (validated c ''mac'') \<longrightarrow> (\<exists>m. validated c ''mac'' = Some (PNum m))")
    case True
    from False have "truthy (validated c ''mac'') \<and> \<not> nicEtagFail E (err c) \<or>
        attempts c \<le> MAC_RETRIES E" by auto
    from randomMAC_builds [OF this True] show ?thesis
      by (auto simp: build_nic_not_failed)
  next
    case nonum: False
    show ?thesis
    proof (cases "nicEtagFail E (err c)")
      case False
      with nonum randomMAC_reuse_eq [of c E] show ?thesis
        by (auto simp: build_nic_not_failed)
    next
      case True
      with False nonum have "attempts c \<le> MAC_RETRIES E" by auto
      with randomMAC_not_number [of c E] nonum True show ?thesis by auto
    qed
  qed
  with False show ?thesis by auto
qed

text \<open>
  C4, as the specification states it, fails in its last part, "once the per-request attempt
  counter exceeds \<open>MAC_RETRIES\<close> it fails": \<^verbatim>\<open>randomMAC\<close> looks at the counter only after
  the branch that reuses the MAC. Here four attempts have been counted, \<open>MAC_RETRIES\<close> is
  3, the previous error is a version conflict on an IP, and \<^verbatim>\<open>randomMAC\<close> keeps MAC 153
  and completes. The second half is a whole request that gets there: the commits of the
  first three turns fail on the NIC, that of the fourth fails on the IP, and the fifth turn
  completes with the MAC of the fourth attempt, for \<^verbatim>\<open>nicAndIP\<close> to return the NIC.
\<close>

theorem randomMAC_keeps_mac_past_retries:
  "attempts ctx_mac_past_limit > MAC_RETRIES env1 \<and>
   randomMAC env1 ctx_mac_past_limit =
     (Done, ctx_mac_past_limit\<lparr>nic := Some (Nic [''mac'' \<mapsto> PNum 153])\<rparr>) \<and>
   MAC_RETRIES env_busy = 3 \<and>
   nicAndIP (Suc (Suc (Suc (Suc (Suc 0))))) env_busy ctx_random_on_net1 =
     Some (Result (Some nic_153_on_ip11),
           ctx_random_on_net1\<lparr>validated := [''network'' \<mapsto> PNet net1, ''mac'' \<mapsto> PNum 153],
             macTries := Some 4, maxMac := Some 200, startMac := Some 150,
             err := Some err_ip10_conflict, ips := [ip11],
             batch := [IPBatch ip11, NicBatch nic_153_on_ip11 None],
             nic := Some nic_153_on_ip11, world := 8\<rparr>)"
proof (intro conjI)
  show "attempts ctx_mac_past_limit > MAC_RETRIES env1"
    by (simp add: attempts_def ctx_mac_past_limit_def ctx_mac_150_def ctx1_def env1_def)
  show "randomMAC env1 ctx_mac_past_limit =
     (Done, ctx_mac_past_limit\<lparr>nic := Some (Nic [''mac'' \<mapsto> PNum 153])\<rparr>)"
    by (simp add: randomMAC_def ctx_mac_past_limit_def ctx_mac_150_def ctx1_def
        env1_def nicEtagFail_def err_ip10_conflict_def new_Nic_def linkIP_def)
  show "MAC_RETRIES env_busy = 3"
    by (simp add: env_busy_def env1_def)
  show "nicAndIP (Suc (Suc (Suc (Suc (Suc 0))))) env_busy ctx_random_on_net1 =
     Some (Result (Some nic_153_on_ip11),
           ctx_random_on_net1\<lparr>validated := [''network'' \<mapsto> PNet net1, ''mac'' \<mapsto> PNum 153],
             macTries := Some 4, maxMac := Some 200, startMac := Some 150,
             err := Some err_ip10_conflict, ips := [ip11],
             batch := [IPBatch ip11, NicBatch nic_153_on_ip11 None],
             nic := Some nic_153_on_ip11, world := 8\<rparr>)"
    by (simp add: nicAndIP_def provisioners_of_def iteration_def provision_def provisionNet_def
        NetworkProvision_def fetchNextIP_def batchIP_def haveEtagFailure_def key_def
        freeOldIPs_def listVnetCns_def randomMAC_def nicEtagFail_def new_Nic_def linkIP_def
        nicBatch_def commit_def Nic_def Let_def nic_153_on_ip11_def
        env_busy_def env1_def ctx_random_on_net1_def ctx1_def err_mac_conflict_def
        err_ip10_conflict_def ip10_def ip11_def net1_def)
qed

text \<open>
  C4, amended. In \<^verbatim>\<open>randomMAC\<close>, when the parameters hold no MAC yet (the first attempt),
  the MAC is the number that \<^verbatim>\<open>util_mac.randomNum\<close> draws for the configured OUI, and it is
  kept as \<^verbatim>\<open>opts.startMac\<close>. When they hold a MAC and \<^verbatim>\<open>nicEtagFail\<close> holds of the
  previous error (the first version conflict on its cause chain is in the NIC bucket), the
  next attempt is that MAC plus one. In both cases a number above \<^verbatim>\<open>opts.maxMac\<close> is
  replaced by a fresh draw, and the attempt is counted. When they hold a MAC and
  \<^verbatim>\<open>nicEtagFail\<close> does not hold, no attempt is made or counted: the MAC stays, and the
  function does not fail, however many attempts have been counted.

  \<^verbatim>\<open>randomMAC\<close> fails exactly when an attempt is due (there is no MAC yet, or
  \<^verbatim>\<open>nicEtagFail\<close> holds) and more than \<open>MAC_RETRIES\<close> attempts have been counted, and then
  with the stopping error \<open>no more free MAC addresses\<close>, the parameters being left as they
  were. In every other case, when the MAC is a number, the constructor accepts the
  parameters with the chosen MAC and at most one IP was selected in this turn, it completes
  with a NIC that carries those parameters and is linked to that IP. A NIC that is built
  carries the MAC of the parameters. As long as the draws lie in the OUI, so does every MAC
  that the function leaves in the parameters. (That the draw is uniform is a matter of
  \<^verbatim>\<open>util_mac.randomNum\<close>, which is a parameter here. A MAC of 0 counts as no MAC.)
\<close>

theorem randomMAC_attempts:
  "(\<not> truthy (validated c ''mac'') \<longrightarrow> attempts c \<le> MAC_RETRIES E \<longrightarrow>
    randomNum E (world c) = (r, w) \<longrightarrow>
      validated (snd (randomMAC E c)) ''mac'' =
        Some (PNum (if r \<le> mac_limit E c then r else fst (randomNum E w))) \<and>
      startMac (snd (randomMAC E c)) = Some r \<and>
      macTries (snd (randomMAC E c)) = Some (attempts c + 1)) \<and>
   (validated c ''mac'' = Some (PNum m) \<longrightarrow> m \<noteq> 0 \<longrightarrow> nicEtagFail E (err c) \<longrightarrow>
    attempts c \<le> MAC_RETRIES E \<longrightarrow>
      validated (snd (randomMAC E c)) ''mac'' =
        Some (PNum (if m + 1 \<le> mac_limit E c then m + 1
                    else fst (randomNum E (world c)))) \<and>
      macTries (snd (randomMAC E c)) = Some (attempts c + 1)) \<and>
   (truthy (validated c ''mac'') \<longrightarrow> \<not> nicEtagFail E (err c) \<longrightarrow>
      validated (snd (randomMAC E c)) = validated c \<and>
      macTries (snd (randomMAC E c)) = Some (attempts c) \<and>
      fst (randomMAC E c) \<noteq> Failed e) \<and>
   (fst (randomMAC E c) = Failed e \<longleftrightarrow>
      e = no_free_mac \<and> (\<not> truthy (validated c ''mac'') \<or> nicEtagFail E (err c)) \<and>
      attempts c > MAC_RETRIES E) \<and>
   (fst (randomMAC E c) = Failed e \<longrightarrow> validated (snd (randomMAC E c)) = validated c) \<and>
   (truthy (validated c ''mac'') \<and> \<not> nicEtagFail E (err c) \<or> attempts c \<le> MAC_RETRIES E \<longrightarrow>
    (truthy (validated c ''mac'') \<longrightarrow> (\<exists>k. validated c ''mac'' = Some (PNum k))) \<longrightarrow>
    Nic_check E (validated (snd (randomMAC E c))) = None \<longrightarrow> length (ips c) \<le> 1 \<longrightarrow>
      fst (randomMAC E c) = Done \<and> nic_built (snd (randomMAC E c))) \<and>
   (fst (randomMAC E c) = Done \<longrightarrow>
      (\<exists>n. nic (snd (randomMAC E c)) = Some n \<and>
           nic_params n = validated (snd (randomMAC E c)))) \<and>
   ((\<forall>w. lo \<le> fst (randomNum E w) \<and> fst (randomNum E w) \<le> maxOUInum E) \<longrightarrow>
    mac_limit E c = maxOUInum E \<longrightarrow> within_oui lo E (validated c) \<longrightarrow>
      within_oui lo E (validated (snd (randomMAC E c))))"
proof (intro conjI impI)
  assume a: "\<not> truthy (validated c ''mac'')" "attempts c \<le> MAC_RETRIES E"
    "randomNum E (world c) = (r, w)"
  note eq = randomMAC_first_eq [OF a]
  show "validated (snd (randomMAC E c)) ''mac'' =
        Some (PNum (if r \<le> mac_limit E c then r else fst (randomNum E w)))"
    by (simp add: eq build_nic_frame)
  show "startMac (snd (randomMAC E c)) = Some r"
    by (simp add: eq build_nic_frame)
  show "macTries (snd (randomMAC E c)) = Some (attempts c + 1)"
    by (simp add: eq build_nic_frame)
next
  assume a: "validated c ''mac'' = Some (PNum m)" "m \<noteq> 0" "nicEtagFail E (err c)"
    "attempts c \<le> MAC_RETRIES E"
  note eq = randomMAC_next_eq [OF a]
  show "validated (snd (randomMAC E c)) ''mac'' =
        Some (PNum (if m + 1 \<le> mac_limit E c then m + 1 else fst (randomNum E (world c))))"
    by (simp add: eq build_nic_frame)
  show "macTries (snd (randomMAC E c)) = Some (attempts c + 1)"
    by (simp add: eq build_nic_frame)
next
  assume a: "truthy (validated c ''mac'')" "\<not> nicEtagFail E (err c)"
  note eq = randomMAC_reuse_eq [OF a]
  show "validated (snd (randomMAC E c)) = validated c"
    by (simp add: eq build_nic_frame)
  show "macTries (snd (randomMAC E c)) = Some (attempts c)"
    by (simp add: eq build_nic_frame attempts_def split: option.splits)
  show "fst (randomMAC E c) \<noteq> Failed e"
    by (simp add: eq build_nic_not_failed)
next
  show "fst (randomMAC E c) = Failed e \<longleftrightarrow>
      e = no_free_mac \<and> (\<not> truthy (validated c ''mac'') \<or> nicEtagFail E (err c)) \<and>
      attempts c > MAC_RETRIES E"
    by (rule randomMAC_fails_iff)
next
  assume "fst (randomMAC E c) = Failed e"
  then have "(\<not> truthy (validated c ''mac'') \<or> nicEtagFail E (err c)) \<and> attempts c > MAC_RETRIES E"
    by (simp add: randomMAC_fails_iff)
  then show "validated (snd (randomMAC E c)) = validated c"
    by (simp add: randomMAC_exhausted_eq)
next
  assume b: "truthy (validated c ''mac'') \<and> \<not> nicEtagFail E (err c) \<or> attempts c \<le> MAC_RETRIES E"
    "truthy (validated c ''mac'') \<longrightarrow> (\<exists>k. validated c ''mac'' = Some (PNum k))"
    and ok: "Nic_check E (validated (snd (randomMAC E c))) = None" "length (ips c) \<le> 1"
  from randomMAC_builds [OF b] obtain c1 where c1: "randomMAC E c = build_nic E c1"
    "ips c1 = ips c" by auto
  with ok have "Nic_check E (validated c1) = None" "length (ips c1) \<le> 1"
    by (simp_all add: build_nic_frame)
  from build_nic_ok [OF this] c1(1)
  show "fst (randomMAC E c) = Done" "nic_built (snd (randomMAC E c))"
    by simp_all
next
  assume d: "fst (randomMAC E c) = Done"
  with randomMAC_cases [of E c] obtain c1 where "randomMAC E c = build_nic E c1"
    by auto
  from this d show "\<exists>n. nic (snd (randomMAC E c)) = Some n \<and>
           nic_params n = validated (snd (randomMAC E c))"
    by (rule randomMAC_done_via)
next
  assume "\<forall>w. lo \<le> fst (randomNum E w) \<and> fst (randomNum E w) \<le> maxOUInum E"
    "mac_limit E c = maxOUInum E" "within_oui lo E (validated c)"
  then show "within_oui lo E (validated (snd (randomMAC E c)))"
    by (rule randomMAC_within_oui)
qed

theorem randomMAC_attempts_witness:
  "\<not> truthy (validated ctx1 ''mac'') \<and> attempts ctx1 \<le> MAC_RETRIES env1 \<and>
   randomNum env1 (world ctx1) = (100, 1) \<and>
   validated (snd (randomMAC env1 ctx1)) ''mac'' = Some (PNum 100) \<and>
   startMac (snd (randomMAC env1 ctx1)) = Some 100 \<and>
   macTries (snd (randomMAC env1 ctx1)) = Some 1 \<and>
   Nic_check env1 (validated (snd (randomMAC env1 ctx1))) = None \<and> length (ips ctx1) \<le> 1 \<and>
   fst (randomMAC env1 ctx1) = Done \<and> nic_built (snd (randomMAC env1 ctx1)) \<and>
   validated ctx_mac_150 ''mac'' = Some (PNum 150) \<and> nicEtagFail env1 (err ctx_mac_150) \<and>
   attempts ctx_mac_150 \<le> MAC_RETRIES env1 \<and>
   validated (snd (randomMAC env1 ctx_mac_150)) ''mac'' = Some (PNum 151) \<and>
   fst (randomMAC env1 ctx_mac_150) = Done \<and>
   validated (snd (randomMAC env1 ctx_mac_200)) ''mac'' = Some (PNum 107) \<and>
   truthy (validated ctx_mac_kept ''mac'') \<and> \<not> nicEtagFail env1 (err ctx_mac_kept) \<and>
   validated (snd (randomMAC env1 ctx_mac_kept)) = validated ctx_mac_kept \<and>
   macTries (snd (randomMAC env1 ctx_mac_kept)) = Some 1 \<and>
   fst (randomMAC env1 ctx_mac_kept) = Done \<and>
   attempts ctx_mac_spent > MAC_RETRIES env1 \<and> nicEtagFail env1 (err ctx_mac_spent) \<and>
   fst (randomMAC env1 ctx_mac_spent) = Failed no_free_mac \<and>
   validated (snd (randomMAC env1 ctx_mac_spent)) = validated ctx_mac_spent \<and>
   (\<forall>w. 100 \<le> fst (randomNum env1 w) \<and> fst (randomNum env1 w) \<le> maxOUInum env1) \<and>
   within_oui 100 env1 (validated ctx_mac_200) \<and>
   within_oui 100 env1 (validated (snd (randomMAC env1 ctx_mac_200)))"
proof -
  have first: "\<not> truthy (validated ctx1 ''mac'')" "attempts ctx1 \<le> MAC_RETRIES env1"
    "randomNum env1 (world ctx1) = (100, 1)" "mac_limit env1 ctx1 = 200"
    by (simp_all add: ctx1_def env1_def attempts_def mac_limit_def)
  have nxt: "validated ctx_mac_150 ''mac'' = Some (PNum 150)" "nicEtagFail env1 (err ctx_mac_150)"
    "attempts ctx_mac_150 \<le> MAC_RETRIES env1" "mac_limit env1 ctx_mac_150 = 200"
    by (simp_all add: ctx_mac_150_def ctx1_def env1_def attempts_def mac_limit_def
        nicEtagFail_def err_nic_conflict_def)
  have wrap: "validated ctx_mac_200 ''mac'' = Some (PNum 200)" "nicEtagFail env1 (err ctx_mac_200)"
    "attempts ctx_mac_200 \<le> MAC_RETRIES env1" "mac_limit env1 ctx_mac_200 = 200"
    "fst (randomNum env1 (world ctx_mac_200)) = 107"
    by (simp_all add: ctx_mac_200_def ctx_mac_150_def ctx1_def env1_def attempts_def
        mac_limit_def nicEtagFail_def err_nic_conflict_def)
  have kept: "truthy (validated ctx_mac_kept ''mac'')" "\<not> nicEtagFail env1 (err ctx_mac_kept)"
    "attempts ctx_mac_kept = 1" "validated ctx_mac_kept ''mac'' = Some (PNum 150)"
    "length (ips ctx_mac_kept) \<le> 1"
    by (simp_all add: ctx_mac_kept_def ctx_mac_150_def ctx1_def env1_def nicEtagFail_def
        err_ip10_conflict_def attempts_def)
  have spent: "nicEtagFail env1 (err ctx_mac_spent)" "attempts ctx_mac_spent > MAC_RETRIES env1"
    by (simp_all add: ctx_mac_spent_def ctx_mac_150_def ctx1_def env1_def attempts_def
        nicEtagFail_def err_nic_conflict_def)
  have draws: "\<forall>w. 100 \<le> fst (randomNum env1 w) \<and> fst (randomNum env1 w) \<le> maxOUInum env1"
    by (simp add: env1_def)
  have inv: "within_oui 100 env1 (validated ctx_mac_200)"
    by (simp add: within_oui_def ctx_mac_200_def ctx_mac_150_def ctx1_def env1_def)
  have lim: "mac_limit env1 ctx_mac_200 = maxOUInum env1"
    by (simp add: mac_limit_def ctx_mac_200_def ctx_mac_150_def ctx1_def env1_def)
  have accepts: "Nic_check env1 v = None" for v
    by (simp add: env1_def)
  have noips: "length (ips ctx1) \<le> 1" "length (ips ctx_mac_150) \<le> 1"
    by (simp_all add: ctx_mac_150_def ctx1_def)
  note at_first = randomMAC_attempts [where E = env1 and c = ctx1 and r = 100 and w = 1]
  note at_next = randomMAC_attempts [where E = env1 and c = ctx_mac_150 and m = 150]
  note at_wrap = randomMAC_attempts [where E = env1 and c = ctx_mac_200 and m = 200
      and lo = 100]
  note at_kept = randomMAC_attempts [where E = env1 and c = ctx_mac_kept]
  note at_spent = randomMAC_attempts [where E = env1 and c = ctx_mac_spent
      and e = no_free_mac]
  from first at_first
  have a: "validated (snd (randomMAC env1 ctx1)) ''mac'' = Some (PNum 100)"
    "startMac (snd (randomMAC env1 ctx1)) = Some 100"
    "macTries (snd (randomMAC env1 ctx1)) = Some 1"
    by (simp_all add: attempts_def ctx1_def)
  from first(1,2) accepts noips(1) at_first
  have a': "fst (randomMAC env1 ctx1) = Done" "nic_built (snd (randomMAC env1 ctx1))"
    by blast+
  from nxt at_next
  have b: "validated (snd (randomMAC env1 ctx_mac_150)) ''mac'' = Some (PNum 151)"
    by simp
  from nxt(1,3) accepts noips(2) at_next
  have b': "fst (randomMAC env1 ctx_mac_150) = Done"
    by blast
  from wrap at_wrap
  have c: "validated (snd (randomMAC env1 ctx_mac_200)) ''mac'' = Some (PNum 107)"
    by simp
  from kept(1,2) at_kept
  have d: "validated (snd (randomMAC env1 ctx_mac_kept)) = validated ctx_mac_kept"
    "macTries (snd (randomMAC env1 ctx_mac_kept)) = Some (attempts ctx_mac_kept)"
    by blast+
  from kept(1,2,4,5) accepts at_kept
  have d': "fst (randomMAC env1 ctx_mac_kept) = Done"
    by blast
  from spent at_spent
  have e: "fst (randomMAC env1 ctx_mac_spent) = Failed no_free_mac"
    by blast
  with at_spent
  have e': "validated (snd (randomMAC env1 ctx_mac_spent)) = validated ctx_mac_spent"
    by blast
  from draws inv lim at_wrap
  have f: "within_oui 100 env1 (validated (snd (randomMAC env1 ctx_mac_200)))"
    by blast
  from first(1-3) nxt(1-3) kept(1,2) spent draws inv accepts noips(1) a a' b b' c d
    kept(3) d' e e' f
  show ?thesis
    by simp
qed

section \<open>How many IPs a turn selects\<close>

lemma batchIP_ips:
  "batchIP p c = (r, p', c') \<Longrightarrow>
     (r = Done \<longrightarrow> length (ips c') = Suc (length (ips c))) \<and>
     r \<noteq> Thrown (AssertionError ''opts.ips.length === 1'')"
  by (auto simp: batchIP_def split: option.splits)

lemma fetchNextIP_ips:
  "fetchNextIP E p c d = (r, p', c') \<Longrightarrow>
     (r = Done \<longrightarrow> length (ips c') = Suc (length (ips c))) \<and>
     r \<noteq> Thrown (AssertionError ''opts.ips.length === 1'')"
  by (auto simp: fetchNextIP_def split: net_ref.splits prod.splits sum.splits dest!: batchIP_ips)

lemma network_uuid_exn: "network_uuid n = Inl x \<Longrightarrow> \<exists>m. x = TypeError m"
  by (cases n) auto

lemma haveEtagFailure_exn: "haveEtagFailure E p er = Inl x \<Longrightarrow> \<exists>m. x = TypeError m"
  by (auto simp: haveEtagFailure_def split: option.splits prod.splits sum.splits
      dest: network_uuid_exn)

lemma haveNetFailure_exn: "haveNetFailure p er = Inl x \<Longrightarrow> \<exists>m. x = TypeError m"
  by (auto simp: haveNetFailure_def split: option.splits err_kind.splits sum.splits
      dest: network_uuid_exn)

lemma provisionIP_ips:
  "provisionIP E p c = (r, p', c') \<Longrightarrow>
     (r = Done \<longrightarrow> length (ips c') = Suc (length (ips c))) \<and>
     r \<noteq> Thrown (AssertionError ''opts.ips.length === 1'')"
  by (auto simp: provisionIP_def
      split: sum.splits bool.splits option.splits 
      dest!: batchIP_ips haveEtagFailure_exn network_uuid_exn)

lemma provisionNet_ips:
  "provisionNet E p c = (r, p', c') \<Longrightarrow>
     (r = Done \<longrightarrow> length (ips c') = Suc (length (ips c))) \<and>
     r \<noteq> Thrown (AssertionError ''opts.ips.length === 1'')"
  by (auto simp: provisionNet_def
      split: sum.splits bool.splits option.splits if_splits
      dest!: batchIP_ips fetchNextIP_ips haveEtagFailure_exn)

lemma nextNetwork_ips:
  "nextNetwork E p c = (r, p', c') \<Longrightarrow>
     (r = Done \<longrightarrow> length (ips c') = Suc (length (ips c))) \<and>
     r \<noteq> Thrown (AssertionError ''opts.ips.length === 1'')"
  by (auto simp: nextNetwork_def Let_def
      split: list.splits sum.splits prod.splits if_splits
      dest!: fetchNextIP_ips)

lemma provisionPool_ips:
  "provisionPool E p c = (r, p', c') \<Longrightarrow>
     (r = Done \<longrightarrow> length (ips c') = Suc (length (ips c))) \<and>
     r \<noteq> Thrown (AssertionError ''opts.ips.length === 1'')"
  by (auto simp: provisionPool_def
      split: sum.splits bool.splits option.splits if_splits
      dest!: batchIP_ips fetchNextIP_ips nextNetwork_ips haveEtagFailure_exn haveNetFailure_exn)

lemma provision_ips:
  "provision E p c = (r, p', c') \<Longrightarrow>
     (r = Done \<longrightarrow> length (ips c') = Suc (length (ips c))) \<and>
     r \<noteq> Thrown (AssertionError ''opts.ips.length === 1'')"
  by (auto simp: provision_def split: prov_class.splits
      dest!: provisionIP_ips provisionNet_ips provisionPool_ips)

lemma runProvisions_ips:
  "runProvisions E ps c = (r, ps', c') \<Longrightarrow>
     (r = Done \<longrightarrow> length (ips c') = length (ips c) + length ps) \<and>
     r \<noteq> Thrown (AssertionError ''opts.ips.length === 1'') \<and>
     length ps' = length ps"
proof (induction ps arbitrary: c r ps' c')
  case Nil
  then show ?case by simp
next
  case (Cons p ps)
  obtain r1 p1 c1 where p: "provision E p c = (r1, p1, c1)"
    by (cases "provision E p c") auto
  show ?case
  proof (cases "r1 = Done")
    case True
    obtain r2 ps2 c2 where rest: "runProvisions E ps c1 = (r2, ps2, c2)"
      by (cases "runProvisions E ps c1") auto
    from Cons.IH [OF rest] provision_ips [OF p] True p rest Cons.prems
    show ?thesis by auto
  next
    case False
    with provision_ips [OF p] p Cons.prems show ?thesis
      by (cases r1) auto
  qed
qed

lemma linkIP_assert:
  "linkIP n is = Inl x \<Longrightarrow> x = AssertionError ''opts.ips.length === 1'' \<and> length is > 1"
  by (cases "is") (auto simp: linkIP_def split: if_splits)

lemma linkIP_ok: "linkIP n is = Inr n' \<Longrightarrow> length is \<le> 1"
  by (auto simp: linkIP_def split: if_splits)

lemma macSupplied_ips:
  "macSupplied E c = (r, c') \<Longrightarrow>
     (r = Done \<longrightarrow> length (ips c) \<le> 1) \<and>
     (r = Thrown (AssertionError ''opts.ips.length === 1'') \<longrightarrow> length (ips c) > 1)"
  by (auto simp: macSupplied_def new_Nic_def split: if_splits sum.splits option.splits
      dest: linkIP_assert linkIP_ok)

lemma addUpdatedNic_ips:
  "addUpdatedNic E c = (r, c') \<Longrightarrow>
     (r = Done \<longrightarrow> length (ips c) \<le> 1) \<and>
     (r = Thrown (AssertionError ''opts.ips.length === 1'') \<longrightarrow> length (ips c) > 1)"
  by (auto simp: addUpdatedNic_def new_Nic_def split: if_splits sum.splits option.splits
      dest: linkIP_assert linkIP_ok)

lemma build_nic_ips:
  "build_nic E c = (r, c') \<Longrightarrow>
     (r = Done \<longrightarrow> length (ips c) \<le> 1) \<and>
     (r = Thrown (AssertionError ''opts.ips.length === 1'') \<longrightarrow> length (ips c) > 1)"
  by (auto simp: build_nic_def new_Nic_def split: sum.splits option.splits
      dest: linkIP_assert linkIP_ok)

lemma randomMAC_ips:
  "randomMAC E c = (r, c') \<Longrightarrow>
     (r = Done \<longrightarrow> length (ips c) \<le> 1) \<and>
     (r = Thrown (AssertionError ''opts.ips.length === 1'') \<longrightarrow> length (ips c) > 1)"
proof -
  assume run: "randomMAC E c = (r, c')"
  from randomMAC_cases [of E c] show ?thesis
  proof (elim disjE exE conjE)
    fix c1
    assume "randomMAC E c = build_nic E c1" and same: "ips c1 = ips c"
    with run have "build_nic E c1 = (r, c')" by simp
    from build_nic_ips [OF this] same show ?thesis by simp
  next
    assume "fst (randomMAC E c) = Failed no_free_mac"
    with run show ?thesis by simp
  next
    assume "fst (randomMAC E c) = Thrown (TypeError ''validated.mac is not a number'')"
    with run show ?thesis by simp
  qed
qed

lemma run_nicFn_ips:
  "run_nicFn f E c = (r, c') \<Longrightarrow>
     (r = Done \<longrightarrow> length (ips c) \<le> 1) \<and>
     (r = Thrown (AssertionError ''opts.ips.length === 1'') \<longrightarrow> length (ips c) > 1)"
  by (cases f) (auto dest: macSupplied_ips randomMAC_ips addUpdatedNic_ips)

lemma freeOldIPs_ips: "freeOldIPs c = (r, c') \<Longrightarrow> r = Done \<and> ips c' = ips c"
  by (auto simp: freeOldIPs_def split: option.splits)

lemma listVnetCns_ips:
  "listVnetCns E c = (r, c') \<Longrightarrow> (\<forall>x. r \<noteq> Thrown x) \<and> ips c' = ips c"
  by (auto simp: listVnetCns_def Let_def split: if_splits prod.splits list.splits)

lemma nicBatch_exn:
  "nicBatch c = (r, c') \<Longrightarrow> r \<noteq> Thrown (AssertionError ''opts.ips.length === 1'')"
  by (auto simp: nicBatch_def split: option.splits)

lemma commit_exn: "commit E c = (r, c') \<Longrightarrow> r \<noteq> Thrown x"
  by (auto simp: commit_def split: option.splits prod.splits)

lemma stages_no_assert:
  assumes "length (ips c) \<le> 1"
  shows "fst (pipeline [freeOldIPs, listVnetCns E, run_nicFn f E, nicBatch, commit E] c) \<noteq>
     Thrown (AssertionError ''opts.ips.length === 1'')"
proof -
  obtain c1 where s1: "freeOldIPs c = (Done, c1)" and i1: "ips c1 = ips c"
    using freeOldIPs_ips [of c] by (cases "freeOldIPs c") auto
  obtain r2 c2 where s2: "listVnetCns E c1 = (r2, c2)"
    by (cases "listVnetCns E c1") auto
  note l2 = listVnetCns_ips [OF s2]
  show ?thesis
  proof (cases "r2 = Done")
    case False
    with s1 s2 l2 show ?thesis by (cases r2) auto
  next
    case True
    obtain r3 c3 where s3: "run_nicFn f E c2 = (r3, c3)"
      by (cases "run_nicFn f E c2") auto
    note l3 = run_nicFn_ips [OF s3]
    from l2 i1 assms have len: "length (ips c2) \<le> 1" by simp
    show ?thesis
    proof (cases "r3 = Done")
      case False
      with s1 s2 s3 True l3 len show ?thesis by (cases r3) auto
    next
      case r3: True
      obtain r4 c4 where s4: "nicBatch c3 = (r4, c4)"
        by (cases "nicBatch c3") auto
      note l4 = nicBatch_exn [OF s4]
      show ?thesis
      proof (cases "r4 = Done")
        case False
        with s1 s2 s3 s4 True r3 l4 show ?thesis by (cases r4) auto
      next
        case r4: True
        obtain r5 c5 where s5: "commit E c4 = (r5, c5)"
          by (cases "commit E c4") auto
        from commit_exn [OF s5] s1 s2 s3 s4 s5 True r3 r4 show ?thesis
          by (cases r5) auto
      qed
    qed
  qed
qed

lemma iteration_no_assert:
  assumes "length ps \<le> 1"
  shows "fst (iteration E f ps c) \<noteq> Thrown (AssertionError ''opts.ips.length === 1'') \<and>
     length (fst (snd (iteration E f ps c))) = length ps"
proof -
  obtain r1 ps1 c1 where rp: "runProvisions E ps (c\<lparr>batch := [], ips := []\<rparr>) = (r1, ps1, c1)"
    by (cases "runProvisions E ps (c\<lparr>batch := [], ips := []\<rparr>)") auto
  note l = runProvisions_ips [OF rp]
  show ?thesis
  proof (cases "r1 = Done")
    case False
    with rp l show ?thesis by (cases r1) (auto simp: iteration_def)
  next
    case True
    with l assms have "length (ips c1) \<le> 1" by simp
    from stages_no_assert [OF this, of E f] rp True l show ?thesis
      by (auto simp: iteration_def split: prod.splits)
  qed
qed

lemma repeat_no_assert:
  "length ps \<le> 1 \<Longrightarrow>
   repeat n E f ps c \<noteq> Some (Exception (AssertionError ''opts.ips.length === 1''), ps', c')"
proof (induction n arbitrary: ps c)
  case 0
  then show ?case by simp
next
  case (Suc n)
  obtain r ps1 c1 where it: "iteration E f ps c = (r, ps1, c1)"
    by (cases "iteration E f ps c") auto
  from iteration_no_assert [OF Suc.prems, of E f c] it
  have na: "r \<noteq> Thrown (AssertionError ''opts.ips.length === 1'')" and len: "length ps1 \<le> 1"
    using Suc.prems by auto
  show ?case
  proof (cases r)
    case Done
    with it show ?thesis by simp
  next
    case (Failed e1)
    with it Suc.IH [OF len] show ?thesis by auto
  next
    case (Thrown x)
    with it na show ?thesis by auto
  qed
qed

lemma provisioners_of_length:
  "provisioners_of E bp c = Inr ps \<Longrightarrow>
   (case provisionableIPs c of None \<Rightarrow> True | Some l \<Rightarrow> length l \<le> 1) \<Longrightarrow> length ps \<le> 1"
  by (auto simp: provisioners_of_def split: if_splits option.splits pval.splits)

text \<open>
  C10. The block that links the IP, which \<^verbatim>\<open>macSupplied\<close>, \<^verbatim>\<open>randomMAC\<close> and
  \<^verbatim>\<open>addUpdatedNic\<close> all contain, throws the assertion \<open>opts.ips.length === 1\<close> exactly when
  \<^verbatim>\<open>opts.ips\<close> holds more than one IP: none of the three functions completes with more
  than one IP, and none throws the assertion with at most one. When the request carries at
  most one entry in \<^verbatim>\<open>_provisionableIPs\<close>, \<^verbatim>\<open>nicAndIP\<close> builds at most one provisioner, a
  provisioner that succeeds pushes exactly one IP onto the list that the turn has reset,
  and so \<^verbatim>\<open>nicAndIP\<close> never ends in that assertion, however many turns it takes.
\<close>

theorem ips_length_assertion_never_fires:
  "(linkIP n is = Inl (AssertionError ''opts.ips.length === 1'') \<longleftrightarrow> length is > 1) \<and>
   (fst (run_nicFn f E c) = Done \<longrightarrow> length (ips c) \<le> 1) \<and>
   (fst (run_nicFn f E c) = Thrown (AssertionError ''opts.ips.length === 1'') \<longrightarrow>
      length (ips c) > 1) \<and>
   (provision E p c = (Done, p', c') \<longrightarrow> length (ips c') = Suc (length (ips c))) \<and>
   ((case provisionableIPs c of None \<Rightarrow> True | Some l \<Rightarrow> length l \<le> 1) \<longrightarrow>
      nicAndIP fuel E c \<noteq> Some (Exception (AssertionError ''opts.ips.length === 1''), c''))"
proof (intro conjI impI)
  show "linkIP n is = Inl (AssertionError ''opts.ips.length === 1'') \<longleftrightarrow> length is > 1"
    by (cases "is") (auto simp: linkIP_def)
next
  assume "fst (run_nicFn f E c) = Done"
  then show "length (ips c) \<le> 1"
    using run_nicFn_ips [of f E c Done "snd (run_nicFn f E c)"]
    by (cases "run_nicFn f E c") auto
next
  assume "fst (run_nicFn f E c) = Thrown (AssertionError ''opts.ips.length === 1'')"
  then show "length (ips c) > 1"
    using run_nicFn_ips [of f E c "Thrown (AssertionError ''opts.ips.length === 1'')"
        "snd (run_nicFn f E c)"]
    by (cases "run_nicFn f E c") auto
next
  assume "provision E p c = (Done, p', c')"
  then show "length (ips c') = Suc (length (ips c))"
    using provision_ips by blast
next
  assume one: "case provisionableIPs c of None \<Rightarrow> True | Some l \<Rightarrow> length l \<le> 1"
  show "nicAndIP fuel E c \<noteq> Some (Exception (AssertionError ''opts.ips.length === 1''), c'')"
  proof (cases "baseParams c")
    case None
    then show ?thesis by (simp add: nicAndIP_def)
  next
    case (Some bp)
    show ?thesis
    proof (cases "nicFn c")
      case None
      with Some show ?thesis by (simp add: nicAndIP_def)
    next
      case f: (Some g)
      show ?thesis
      proof (cases "provisioners_of E bp c")
        case (Inl x)
        then have "x \<noteq> AssertionError ''opts.ips.length === 1''"
          by (auto simp: provisioners_of_def split: if_splits option.splits pval.splits)
        with Some f Inl show ?thesis by (simp add: nicAndIP_def)
      next
        case (Inr ps)
        from provisioners_of_length [OF Inr one] have "length ps \<le> 1" .
        from repeat_no_assert [OF this, of fuel E g c] Some f Inr show ?thesis
          by (auto simp: nicAndIP_def)
      qed
    qed
  qed
qed

theorem ips_length_assertion_never_fires_witness:
  "(case provisionableIPs ctx_want_ip10 of None \<Rightarrow> True | Some l \<Rightarrow> length l \<le> 1) \<and>
   nicAndIP (Suc 0) env1 ctx_want_ip10 \<noteq>
     Some (Exception (AssertionError ''opts.ips.length === 1''), ctx_want_ip10) \<and>
   fst (run_nicFn macSuppliedFn env1 ctx_first_turn) = Done \<and>
   length (ips ctx_first_turn) \<le> 1 \<and>
   fst (run_nicFn macSuppliedFn env1 ctx_two_ips) =
     Thrown (AssertionError ''opts.ips.length === 1'') \<and>
   length (ips ctx_two_ips) > 1 \<and>
   provision env1 (IPProvision ip10 None) ctx1 =
     (Done, IPProvision ip10 None, ctx1\<lparr>ips := [ip10], batch := [IPBatch ip10]\<rparr>) \<and>
   length (ips (ctx1\<lparr>ips := [ip10], batch := [IPBatch ip10]\<rparr>)) = Suc (length (ips ctx1))"
proof -
  have one: "case provisionableIPs ctx_want_ip10 of None \<Rightarrow> True | Some l \<Rightarrow> length l \<le> 1"
    by (simp add: ctx_want_ip10_def ctx1_def)
  have fin: "fst (run_nicFn macSuppliedFn env1 ctx_first_turn) = Done"
    by (simp add: macSupplied_def new_Nic_def linkIP_def ctx_first_turn_def ctx1_def env1_def)
  have two: "fst (run_nicFn macSuppliedFn env1 ctx_two_ips) =
      Thrown (AssertionError ''opts.ips.length === 1'')"
    by (simp add: macSupplied_def new_Nic_def linkIP_def ctx_two_ips_def ctx1_def env1_def)
  have push: "provision env1 (IPProvision ip10 None) ctx1 =
      (Done, IPProvision ip10 None, ctx1\<lparr>ips := [ip10], batch := [IPBatch ip10]\<rparr>)"
    by (simp add: provision_def provisionIP_def haveEtagFailure_def batchIP_def
        IPProvision_def ctx1_def)
  from one fin two push
    ips_length_assertion_never_fires [where c = ctx_want_ip10 and E = env1
      and fuel = "Suc 0" and c'' = ctx_want_ip10]
    ips_length_assertion_never_fires [where c = ctx_first_turn and E = env1
      and f = macSuppliedFn]
    ips_length_assertion_never_fires [where c = ctx_two_ips and E = env1
      and f = macSuppliedFn]
    ips_length_assertion_never_fires [where c = ctx1 and E = env1
      and p = "IPProvision ip10 None" and p' = "IPProvision ip10 None"
      and c' = "ctx1\<lparr>ips := [ip10], batch := [IPBatch ip10]\<rparr>"]
  show ?thesis by simp
qed

section \<open>The pool provisioner\<close>

lemma batchIP_prov: "batchIP p c = (r, p', c') \<Longrightarrow> p' = p"
  by (auto simp: batchIP_def split: option.splits)


lemma provisionPool_moves: "moves_on p c \<Longrightarrow> provisionPool E p c = nextNetwork E p c"
  by (auto simp: provisionPool_def moves_on_def)



lemma nextNetwork_head:
  "p_poolUUIDs p = u # rest \<Longrightarrow> u \<noteq> [] \<Longrightarrow> net_get E u (world c) = (Inr n, w) \<Longrightarrow>
   nextNetwork E p c =
     fetchNextIP E (p\<lparr>p_poolUUIDs := rest, p_network := NetObj n\<rparr>) (c\<lparr>world := w\<rparr>) True"
  by (simp add: nextNetwork_def)


lemma provisionIP_prov: "provisionIP E p c = (r, p', c') \<Longrightarrow> p' = p"
  by (auto simp: provisionIP_def split: sum.splits bool.splits option.splits
      dest!: batchIP_prov)







lemma delete_stop_sel [simp]:
  "err_kind (delete_stop e) = err_kind e" "\<not> err_stop (delete_stop e)"
  by (cases e; simp)+

lemma fetchNextIP_fails:
  "p_network p = NetObj n \<Longrightarrow> nextIPonNetwork E (base_of c) n (world c) = (Inl e, w) \<Longrightarrow>
   fetchNextIP E p c d =
     (Failed (if d \<and> err_stop e then delete_stop e else e), p, c\<lparr>world := w\<rparr>)"
  by (simp add: fetchNextIP_def base_of_def)

lemma provisionNet_fetches:
  "p_ip p = None \<or> haveEtagFailure E p (err c) = Inr True \<Longrightarrow>
   provisionNet E p c = fetchNextIP E p c False"
  by (auto simp: provisionNet_def)

lemma provisionPool_fetches:
  "p_network p = NetObj n \<Longrightarrow> haveNetFailure p (err c) = Inr False \<Longrightarrow>
   p_ip p = None \<or> haveEtagFailure E p (err c) = Inr True \<Longrightarrow>
   provisionPool E p c = fetchNextIP E p c True"
  by (auto simp: provisionPool_def)

lemma haveNetFailure_own:
  "p_network p = NetObj n \<Longrightarrow> err c = Some e \<Longrightarrow> err_kind e = SubnetFullError (net_uuid n) \<Longrightarrow>
   haveNetFailure p (err c) = Inr True"
  by (simp add: haveNetFailure_def)

lemma iteration_provision_fails:
  "provision E p (c\<lparr>batch := [], ips := []\<rparr>) = (Failed e, p', c') \<Longrightarrow>
   iteration E f [p] c = (Failed e, [p'], c')"
  by (simp add: iteration_def)




text \<open>
  C5. When \<^verbatim>\<open>nextIPonNetwork\<close> fails with a stopping \<open>SubnetFullError\<close> for
  \<^verbatim>\<open>NetworkProvision\<close>, the provisioner passes the error on with its stop flag, and the
  loop of \<^verbatim>\<open>nicAndIP\<close> ends with that error. For \<^verbatim>\<open>NetworkPoolProvision\<close>, whether the
  network was selected in an earlier turn or is fetched from the queue in this one, the
  provisioner passes the error on without the stop flag, the loop stores it in
  \<^verbatim>\<open>opts.err\<close> and takes another turn, and in that turn the provisioner, seeing the
  stored error for its selected network, calls \<^verbatim>\<open>nextNetwork\<close>.
\<close>

theorem subnet_full_stops_or_switches:
  "(p_class p = NetworkProvisionC \<longrightarrow> p_network p = NetObj n \<longrightarrow>
    (p_ip p = None \<or> haveEtagFailure E p (err c) = Inr True) \<longrightarrow>
    nextIPonNetwork E (base_of c) n (world c) = (Inl e, w) \<longrightarrow>
    err_kind e = SubnetFullError u \<longrightarrow> err_stop e \<longrightarrow>
      provision E p c = (Failed e, p, c\<lparr>world := w\<rparr>) \<and>
      repeat (Suc k) E f [p] c = Some (Error e, [p], c\<lparr>batch := [], ips := [], world := w\<rparr>)) \<and>
   (p_class p = NetworkPoolProvisionC \<longrightarrow> p_network p = NetObj n \<longrightarrow>
    haveNetFailure p (err c) = Inr False \<longrightarrow>
    (p_ip p = None \<or> haveEtagFailure E p (err c) = Inr True) \<longrightarrow>
    nextIPonNetwork E (base_of c) n (world c) = (Inl e, w) \<longrightarrow>
    err_kind e = SubnetFullError (net_uuid n) \<longrightarrow> err_stop e \<longrightarrow>
      provision E p c = (Failed (delete_stop e), p, c\<lparr>world := w\<rparr>) \<and>
      \<not> err_stop (delete_stop e) \<and>
      repeat (Suc k) E f [p] c =
        repeat k E f [p] (c\<lparr>batch := [], ips := [], world := w, err := Some (delete_stop e)\<rparr>) \<and>
      provision E p (c\<lparr>batch := [], ips := [], world := w, err := Some (delete_stop e)\<rparr>) =
        nextNetwork E p (c\<lparr>batch := [], ips := [], world := w, err := Some (delete_stop e)\<rparr>)) \<and>
   (p_class p = NetworkPoolProvisionC \<longrightarrow> p_network p = NetNull \<longrightarrow>
    p_poolUUIDs p = v # rest \<longrightarrow> v \<noteq> [] \<longrightarrow> net_get E v (world c) = (Inr n, w1) \<longrightarrow>
    nextIPonNetwork E (base_of c) n w1 = (Inl e, w) \<longrightarrow>
    err_kind e = SubnetFullError (net_uuid n) \<longrightarrow> err_stop e \<longrightarrow>
      provision E p c =
        (Failed (delete_stop e), p\<lparr>p_poolUUIDs := rest, p_network := NetObj n\<rparr>, c\<lparr>world := w\<rparr>) \<and>
      repeat (Suc k) E f [p] c =
        repeat k E f [p\<lparr>p_poolUUIDs := rest, p_network := NetObj n\<rparr>]
          (c\<lparr>batch := [], ips := [], world := w, err := Some (delete_stop e)\<rparr>) \<and>
      provision E (p\<lparr>p_poolUUIDs := rest, p_network := NetObj n\<rparr>)
          (c\<lparr>batch := [], ips := [], world := w, err := Some (delete_stop e)\<rparr>) =
        nextNetwork E (p\<lparr>p_poolUUIDs := rest, p_network := NetObj n\<rparr>)
          (c\<lparr>batch := [], ips := [], world := w, err := Some (delete_stop e)\<rparr>))"
proof (intro conjI impI)
  assume h: "p_class p = NetworkProvisionC" "p_network p = NetObj n"
    "p_ip p = None \<or> haveEtagFailure E p (err c) = Inr True"
    "nextIPonNetwork E (base_of c) n (world c) = (Inl e, w)" "err_stop e"
  have step: "provision E p c0 = (Failed e, p, c0\<lparr>world := w\<rparr>)"
    if "err c0 = err c" "base_of c0 = base_of c" "world c0 = world c" for c0 :: "'a ctx"
    using h that provisionNet_fetches [of p E c0] fetchNextIP_fails [of p n E c0 e w False]
    by (simp add: provision_def)
  from step [of c] show "provision E p c = (Failed e, p, c\<lparr>world := w\<rparr>)" by simp
  from step [of "c\<lparr>batch := [], ips := []\<rparr>"]
  have "iteration E f [p] c = (Failed e, [p], c\<lparr>batch := [], ips := [], world := w\<rparr>)"
    by (simp add: iteration_provision_fails base_of_def)
  with h(5) show "repeat (Suc k) E f [p] c =
      Some (Error e, [p], c\<lparr>batch := [], ips := [], world := w\<rparr>)"
    by simp
next
  assume h: "p_class p = NetworkPoolProvisionC" "p_network p = NetObj n"
    "haveNetFailure p (err c) = Inr False"
    "p_ip p = None \<or> haveEtagFailure E p (err c) = Inr True"
    "nextIPonNetwork E (base_of c) n (world c) = (Inl e, w)"
    "err_kind e = SubnetFullError (net_uuid n)" "err_stop e"
  let ?c1 = "c\<lparr>batch := [], ips := [], world := w, err := Some (delete_stop e)\<rparr>"
  have step: "provision E p c0 = (Failed (delete_stop e), p, c0\<lparr>world := w\<rparr>)"
    if "err c0 = err c" "base_of c0 = base_of c" "world c0 = world c" for c0 :: "'a ctx"
    using h that provisionPool_fetches [of p n c0 E] fetchNextIP_fails [of p n E c0 e w True]
    by (simp add: provision_def)
  from step [of c] show "provision E p c = (Failed (delete_stop e), p, c\<lparr>world := w\<rparr>)" by simp
  show "\<not> err_stop (delete_stop e)" by simp
  from step [of "c\<lparr>batch := [], ips := []\<rparr>"]
  have "iteration E f [p] c =
      (Failed (delete_stop e), [p], c\<lparr>batch := [], ips := [], world := w\<rparr>)"
    by (simp add: iteration_provision_fails base_of_def)
  then show "repeat (Suc k) E f [p] c = repeat k E f [p] ?c1"
    by simp
  from h(1,2,6) haveNetFailure_own [of p n ?c1 "delete_stop e"]
  show "provision E p ?c1 = nextNetwork E p ?c1"
    by (simp add: provision_def provisionPool_moves moves_on_def)
next
  assume h: "p_class p = NetworkPoolProvisionC" "p_network p = NetNull"
    "p_poolUUIDs p = v # rest" "v \<noteq> []" "net_get E v (world c) = (Inr n, w1)"
    "nextIPonNetwork E (base_of c) n w1 = (Inl e, w)"
    "err_kind e = SubnetFullError (net_uuid n)" "err_stop e"
  let ?p1 = "p\<lparr>p_poolUUIDs := rest, p_network := NetObj n\<rparr>"
  let ?c1 = "c\<lparr>batch := [], ips := [], world := w, err := Some (delete_stop e)\<rparr>"
  have step: "provision E p c0 = (Failed (delete_stop e), ?p1, c0\<lparr>world := w\<rparr>)"
    if "base_of c0 = base_of c" "world c0 = world c" for c0 :: "'a ctx"
    using h that nextNetwork_head [of p v rest E c0 n w1]
      fetchNextIP_fails [of ?p1 n E "c0\<lparr>world := w1\<rparr>" e w True]
    by (simp add: provision_def provisionPool_moves moves_on_def base_of_def)
  from step [of c] show "provision E p c = (Failed (delete_stop e), ?p1, c\<lparr>world := w\<rparr>)"
    by simp
  from step [of "c\<lparr>batch := [], ips := []\<rparr>"]
  have "iteration E f [p] c =
      (Failed (delete_stop e), [?p1], c\<lparr>batch := [], ips := [], world := w\<rparr>)"
    by (simp add: iteration_provision_fails base_of_def)
  then show "repeat (Suc k) E f [p] c = repeat k E f [?p1] ?c1"
    by simp
  from h(1,7) haveNetFailure_own [of ?p1 n ?c1 "delete_stop e"]
  show "provision E ?p1 ?c1 = nextNetwork E ?p1 ?c1"
    by (simp add: provision_def provisionPool_moves moves_on_def)
qed
theorem subnet_full_stops_or_switches_witness:
  "nextIPonNetwork env1 (base_of ctx_on_net1) net1 (world ctx_on_net1) = (Inl err_net1_full, 1) \<and>
   err_stop err_net1_full \<and>
   repeat (Suc 0) env1 macSuppliedFn [NetworkProvision net1] ctx_on_net1 =
     Some (Error err_net1_full, [NetworkProvision net1],
       ctx_on_net1\<lparr>batch := [], ips := [], world := 1\<rparr>) \<and>
   net_get env1 ''N1'' (world ctx_on_pool) = (Inr net1, 1) \<and>
   nextIPonNetwork env1 (base_of ctx_on_pool) net1 1 = (Inl err_net1_full, 2) \<and>
   provision env1 (NetworkPoolProvision pool12 ''network_uuid'') ctx_on_pool =
     (Failed (delete_stop err_net1_full),
      (NetworkPoolProvision pool12 ''network_uuid'')
        \<lparr>p_poolUUIDs := [''N2''], p_network := NetObj net1\<rparr>,
      ctx_on_pool\<lparr>world := 2\<rparr>) \<and>
   \<not> err_stop (delete_stop err_net1_full) \<and>
   repeat (Suc 0) env1 macSuppliedFn [NetworkPoolProvision pool12 ''network_uuid''] ctx_on_pool =
     repeat 0 env1 macSuppliedFn
       [(NetworkPoolProvision pool12 ''network_uuid'')
          \<lparr>p_poolUUIDs := [''N2''], p_network := NetObj net1\<rparr>]
       (ctx_on_pool\<lparr>batch := [], ips := [], world := 2,
          err := Some (delete_stop err_net1_full)\<rparr>) \<and>
   provision env1
       ((NetworkPoolProvision pool12 ''network_uuid'')
          \<lparr>p_poolUUIDs := [''N2''], p_network := NetObj net1\<rparr>)
       (ctx_on_pool\<lparr>batch := [], ips := [], world := 2,
          err := Some (delete_stop err_net1_full)\<rparr>) =
     nextNetwork env1
       ((NetworkPoolProvision pool12 ''network_uuid'')
          \<lparr>p_poolUUIDs := [''N2''], p_network := NetObj net1\<rparr>)
       (ctx_on_pool\<lparr>batch := [], ips := [], world := 2,
          err := Some (delete_stop err_net1_full)\<rparr>) \<and>
   provision env1
       ((NetworkPoolProvision pool12 ''network_uuid'')
          \<lparr>p_poolUUIDs := [''N2''], p_network := NetObj net1\<rparr>)
       ctx_on_pool =
     (Failed (delete_stop err_net1_full),
      (NetworkPoolProvision pool12 ''network_uuid'')
        \<lparr>p_poolUUIDs := [''N2''], p_network := NetObj net1\<rparr>,
      ctx_on_pool\<lparr>world := 1\<rparr>)"
proof -
  let ?n = "NetworkProvision net1"
  let ?p = "NetworkPoolProvision pool12 ''network_uuid''"
  let ?s = "?p\<lparr>p_poolUUIDs := [''N2''], p_network := NetObj net1\<rparr>"
  have net: "p_class ?n = NetworkProvisionC" "p_network ?n = NetObj net1"
    "p_ip ?n = None \<or> haveEtagFailure env1 ?n (err ctx_on_net1) = Inr True"
    by (simp_all add: NetworkProvision_def)
  have full0: "nextIPonNetwork env1 (base_of ctx_on_net1) net1 (world ctx_on_net1) =
      (Inl err_net1_full, 1)"
    by (simp add: env1_def ctx_on_net1_def ctx1_def net1_def err_net1_full_def)
  have kind: "err_kind err_net1_full = SubnetFullError ''N1''"
    "err_kind err_net1_full = SubnetFullError (net_uuid net1)" "err_stop err_net1_full"
    by (simp_all add: err_net1_full_def net1_def)
  have pool: "p_class ?p = NetworkPoolProvisionC" "p_network ?p = NetNull"
    "p_poolUUIDs ?p = ''N1'' # [''N2'']" "''N1'' \<noteq> []"
    by (simp_all add: NetworkPoolProvision_def pool12_def)
  have get: "net_get env1 ''N1'' (world ctx_on_pool) = (Inr net1, 1)"
    by (simp add: env1_def ctx_on_pool_def ctx1_def net1_def)
  have full1: "nextIPonNetwork env1 (base_of ctx_on_pool) net1 1 = (Inl err_net1_full, 2)"
    by (simp add: env1_def net1_def err_net1_full_def)
  have sel: "p_class ?s = NetworkPoolProvisionC" "p_network ?s = NetObj net1"
    "haveNetFailure ?s (err ctx_on_pool) = Inr False"
    "p_ip ?s = None \<or> haveEtagFailure env1 ?s (err ctx_on_pool) = Inr True"
    by (simp_all add: NetworkPoolProvision_def haveNetFailure_def ctx_on_pool_def ctx1_def)
  have full2: "nextIPonNetwork env1 (base_of ctx_on_pool) net1 (world ctx_on_pool) =
      (Inl err_net1_full, 1)"
    by (simp add: env1_def ctx_on_pool_def ctx1_def net1_def err_net1_full_def)
  note single = subnet_full_stops_or_switches [where E = env1 and p = ?n and c = ctx_on_net1
      and k = 0 and f = macSuppliedFn, THEN conjunct1, rule_format,
      OF net full0 kind(1) kind(3)]
  note selected = subnet_full_stops_or_switches [where E = env1 and p = ?s and c = ctx_on_pool
      and k = 0 and f = macSuppliedFn, THEN conjunct2, THEN conjunct1, rule_format,
      OF sel full2 kind(2) kind(3)]
  note fetched = subnet_full_stops_or_switches [where E = env1 and p = ?p and c = ctx_on_pool
      and k = 0 and f = macSuppliedFn, THEN conjunct2, THEN conjunct2, rule_format,
      OF pool get full1 kind(2) kind(3)]
  from full0 kind(3) single get full1 fetched selected show ?thesis
    by blast
qed

section \<open>Pipelines\<close>

lemma pipeline_append:
  "pipeline (fs @ gs) c = (case pipeline fs c of (Done, c') \<Rightarrow> pipeline gs c' | x \<Rightarrow> x)"
  by (induction fs arbitrary: c) (auto split: prod.splits outcome.splits)

lemma pipeline_Done:
  "pipeline (f # fs) s = (Done, s') \<Longrightarrow> \<exists>s1. f s = (Done, s1) \<and> pipeline fs s1 = (Done, s')"
  by (cases "f s") (auto split: outcome.splits)

lemma pipeline_invariant:
  assumes step: "\<And>f s r s'. f \<in> set fs \<Longrightarrow> I s \<Longrightarrow> f s = (r, s') \<Longrightarrow> I s'"
    and "I s" and "pipeline fs s = (r, s')"
  shows "I s'"
  using assms
proof (induction fs arbitrary: s)
  case Nil
  then show ?case by simp
next
  case (Cons f fs)
  obtain r1 s1 where f: "f s = (r1, s1)" by (cases "f s") auto
  have i1: "I s1"
    using Cons.prems(1) [of f s r1 s1] Cons.prems(2) f by simp
  have later: "I t'" if "g \<in> set fs" "I t" "g t = (q, t')" for g t q t'
    using Cons.prems(1) [of g t q t'] that by simp
  show ?case
  proof (cases "r1 = Done")
    case True
    with f Cons.prems(3) have "pipeline fs s1 = (r, s')" by simp
    from Cons.IH [OF later i1 this] show ?thesis by simp
  next
    case False
    with f Cons.prems(3) i1 show ?thesis by (cases r1) auto
  qed
qed

section \<open>Deleting a NIC\<close>

lemma delIPs_eq:
  "existingNic c = Some en \<Longrightarrow> nic_ip en = Some i \<Longrightarrow>
   delIPs c =
     (Done, if strict_eq (nic_params en ''belongs_to_uuid'') (ip_belongs_to_uuid i)
            then c\<lparr>batch := batch c @ [IPUnassignBatch i]\<rparr>
            else c\<lparr>log := log c @ [owner_warning]\<rparr>)"
  by (simp add: delIPs_def delIP_def owner_warning_def)

text \<open>
  C9. \<^verbatim>\<open>delIP\<close> appends the unassign item of the IP to the batch if and only if
  \<^verbatim>\<open>belongs_to_uuid\<close> of the IP equals that of the NIC; otherwise it leaves the batch as it
  is and logs a warning. Either way it calls back without an error, so \<^verbatim>\<open>del\<close> goes on to
  the commit: once the NIC is loaded, the batch that \<^verbatim>\<open>del\<close> commits is the deletion of
  the NIC, followed by the unassign item of its IP exactly when the owners agree.
\<close>

theorem del_unassigns_only_own_ip:
  "(delIP en i c =
      (Done, if strict_eq (nic_params en ''belongs_to_uuid'') (ip_belongs_to_uuid i)
             then c\<lparr>batch := batch c @ [IPUnassignBatch i]\<rparr>
             else c\<lparr>log := log c @ [owner_warning]\<rparr>)) \<and>
   (batch (snd (delIP en i c)) = batch c @ [IPUnassignBatch i] \<longleftrightarrow>
      strict_eq (nic_params en ''belongs_to_uuid'') (ip_belongs_to_uuid i)) \<and>
   (pipeline [validateDeleteParams E, getExistingNic E, del_listVnetCns E] c = (Done, c3) \<longrightarrow>
    existingNic c3 = Some en \<longrightarrow> nic_ip en = Some i \<longrightarrow>
      del E c =
        commit E
          (if strict_eq (nic_params en ''belongs_to_uuid'') (ip_belongs_to_uuid i)
           then c3\<lparr>batch := [NicDelBatch en (vnetCns c3), IPUnassignBatch i]\<rparr>
           else c3\<lparr>batch := [NicDelBatch en (vnetCns c3)],
                   log := log c3 @ [owner_warning]\<rparr>))"
proof (intro conjI impI)
  show "delIP en i c =
      (Done, if strict_eq (nic_params en ''belongs_to_uuid'') (ip_belongs_to_uuid i)
             then c\<lparr>batch := batch c @ [IPUnassignBatch i]\<rparr>
             else c\<lparr>log := log c @ [owner_warning]\<rparr>)"
    by (simp add: delIP_def owner_warning_def)
next
  show "batch (snd (delIP en i c)) = batch c @ [IPUnassignBatch i] \<longleftrightarrow>
      strict_eq (nic_params en ''belongs_to_uuid'') (ip_belongs_to_uuid i)"
    by (simp add: delIP_def)
next
  assume pre: "pipeline [validateDeleteParams E, getExistingNic E, del_listVnetCns E] c = (Done, c3)"
    and en: "existingNic c3 = Some en" and ip: "nic_ip en = Some i"
  have "del E c = pipeline [del_addNicToBatch, delIPs, commit E] c3"
    using pipeline_append [of "[validateDeleteParams E, getExistingNic E, del_listVnetCns E]"
        "[del_addNicToBatch, delIPs, commit E]" c] pre
    by (simp add: del_def)
  also have "\<dots> = pipeline [delIPs, commit E] (c3\<lparr>batch := [NicDelBatch en (vnetCns c3)]\<rparr>)"
    using en by (simp add: del_addNicToBatch_def)
  also have "\<dots> = commit E
          (if strict_eq (nic_params en ''belongs_to_uuid'') (ip_belongs_to_uuid i)
           then c3\<lparr>batch := [NicDelBatch en (vnetCns c3), IPUnassignBatch i]\<rparr>
           else c3\<lparr>batch := [NicDelBatch en (vnetCns c3)],
                   log := log c3 @ [owner_warning]\<rparr>)"
    using en ip delIPs_eq [of "c3\<lparr>batch := [NicDelBatch en (vnetCns c3)]\<rparr>" en i]
    by (cases "commit E (c3\<lparr>batch := [NicDelBatch en (vnetCns c3), IPUnassignBatch i]\<rparr>)";
        cases "commit E (c3\<lparr>batch := [NicDelBatch en (vnetCns c3)],
                   log := log c3 @ [owner_warning]\<rparr>)")
       (auto split: outcome.splits)
  finally show "del E c =
        commit E
          (if strict_eq (nic_params en ''belongs_to_uuid'') (ip_belongs_to_uuid i)
           then c3\<lparr>batch := [NicDelBatch en (vnetCns c3), IPUnassignBatch i]\<rparr>
           else c3\<lparr>batch := [NicDelBatch en (vnetCns c3)],
                   log := log c3 @ [owner_warning]\<rparr>)" .
qed


theorem del_unassigns_only_own_ip_witness:
  "pipeline [validateDeleteParams (env_with nic_on_ip10), getExistingNic (env_with nic_on_ip10),
      del_listVnetCns (env_with nic_on_ip10)] ctx1 =
     (Done, ctx1\<lparr>validatedParams := Some Map.empty, existingNic := Some nic_on_ip10,
        world := 1\<rparr>) \<and>
   strict_eq (nic_params nic_on_ip10 ''belongs_to_uuid'') (ip_belongs_to_uuid ip10) \<and>
   del (env_with nic_on_ip10) ctx1 =
     (Done, ctx1\<lparr>validatedParams := Some Map.empty, existingNic := Some nic_on_ip10,
        batch := [NicDelBatch nic_on_ip10 None, IPUnassignBatch ip10], world := 2\<rparr>) \<and>
   pipeline [validateDeleteParams (env_with nic_on_ip11), getExistingNic (env_with nic_on_ip11),
      del_listVnetCns (env_with nic_on_ip11)] ctx1 =
     (Done, ctx1\<lparr>validatedParams := Some Map.empty, existingNic := Some nic_on_ip11,
        world := 1\<rparr>) \<and>
   \<not> strict_eq (nic_params nic_on_ip11 ''belongs_to_uuid'') (ip_belongs_to_uuid ip11) \<and>
   del (env_with nic_on_ip11) ctx1 =
     (Done, ctx1\<lparr>validatedParams := Some Map.empty, existingNic := Some nic_on_ip11,
        batch := [NicDelBatch nic_on_ip11 None], log := [owner_warning], world := 2\<rparr>)"
proof -
  let ?c10 = "ctx1\<lparr>validatedParams := Some Map.empty, existingNic := Some nic_on_ip10,
    world := 1\<rparr>"
  let ?c11 = "ctx1\<lparr>validatedParams := Some Map.empty, existingNic := Some nic_on_ip11,
    world := 1\<rparr>"
  have pre10: "pipeline [validateDeleteParams (env_with nic_on_ip10),
      getExistingNic (env_with nic_on_ip10), del_listVnetCns (env_with nic_on_ip10)] ctx1 =
      (Done, ?c10)"
    by (simp add: validateDeleteParams_def getExistingNic_def del_listVnetCns_def isFabric_def
        env_with_def env1_def ctx1_def nic_on_ip10_def net1_def)
  have pre11: "pipeline [validateDeleteParams (env_with nic_on_ip11),
      getExistingNic (env_with nic_on_ip11), del_listVnetCns (env_with nic_on_ip11)] ctx1 =
      (Done, ?c11)"
    by (simp add: validateDeleteParams_def getExistingNic_def del_listVnetCns_def isFabric_def
        env_with_def env1_def ctx1_def nic_on_ip11_def nic_on_ip10_def net1_def)
  have own: "strict_eq (nic_params nic_on_ip10 ''belongs_to_uuid'') (ip_belongs_to_uuid ip10)"
    "\<not> strict_eq (nic_params nic_on_ip11 ''belongs_to_uuid'') (ip_belongs_to_uuid ip11)"
    by (simp_all add: strict_eq_def nic_on_ip10_def nic_on_ip11_def ip10_def ip11_def)
  have ex: "existingNic ?c10 = Some nic_on_ip10" "nic_ip nic_on_ip10 = Some ip10"
    "existingNic ?c11 = Some nic_on_ip11" "nic_ip nic_on_ip11 = Some ip11"
    by (simp_all add: nic_on_ip10_def nic_on_ip11_def)
  note d10 = del_unassigns_only_own_ip [where E = "env_with nic_on_ip10" and c = ctx1,
      THEN conjunct2, THEN conjunct2, rule_format, OF pre10 ex(1,2)]
  note d11 = del_unassigns_only_own_ip [where E = "env_with nic_on_ip11" and c = ctx1,
      THEN conjunct2, THEN conjunct2, rule_format, OF pre11 ex(3,4)]
  have a: "del (env_with nic_on_ip10) ctx1 =
      (Done, ?c10\<lparr>batch := [NicDelBatch nic_on_ip10 None, IPUnassignBatch ip10], world := 2\<rparr>)"
    unfolding d10 using own(1)
    by (simp add: commit_def env_with_def env1_def ctx1_def)
  have b: "del (env_with nic_on_ip11) ctx1 =
      (Done, ?c11\<lparr>batch := [NicDelBatch nic_on_ip11 None], log := [owner_warning], world := 2\<rparr>)"
    unfolding d11 using own(2)
    by (simp add: commit_def env_with_def env1_def ctx1_def)
  from pre10 pre11 own a b show ?thesis by simp
qed

section \<open>What the stages of a turn leave alone\<close>

lemma batchIP_frame:
  "batchIP p c = (r, p', c') \<Longrightarrow>
     removeIPs c' = removeIPs c \<and> existingNic c' = existingNic c \<and> p' = p \<and>
     (\<exists>is. ips c' = ips c @ is \<and> batch c' = batch c @ map IPBatch is \<and>
           (\<forall>i\<in>set is. p_ip p' = Some i))"
  by (auto simp: batchIP_def split: option.splits)

lemma fetchNextIP_frame:
  "fetchNextIP E p c d = (r, p', c') \<Longrightarrow>
     removeIPs c' = removeIPs c \<and> existingNic c' = existingNic c \<and>
     (\<exists>is. ips c' = ips c @ is \<and> batch c' = batch c @ map IPBatch is \<and>
           (\<forall>i\<in>set is. p_ip p' = Some i))"
  by (auto simp: fetchNextIP_def split: net_ref.splits prod.splits sum.splits
      dest!: batchIP_frame)

lemma provisionIP_frame:
  "provisionIP E p c = (r, p', c') \<Longrightarrow>
     removeIPs c' = removeIPs c \<and> existingNic c' = existingNic c \<and>
     (\<exists>is. ips c' = ips c @ is \<and> batch c' = batch c @ map IPBatch is \<and>
           (\<forall>i\<in>set is. p_ip p' = Some i))"
  by (auto simp: provisionIP_def split: sum.splits bool.splits option.splits
      dest!: batchIP_frame)

lemma provisionNet_frame:
  "provisionNet E p c = (r, p', c') \<Longrightarrow>
     removeIPs c' = removeIPs c \<and> existingNic c' = existingNic c \<and>
     (\<exists>is. ips c' = ips c @ is \<and> batch c' = batch c @ map IPBatch is \<and>
           (\<forall>i\<in>set is. p_ip p' = Some i))"
  by (auto simp: provisionNet_def split: sum.splits bool.splits if_splits
      dest!: batchIP_frame fetchNextIP_frame)

lemma nextNetwork_frame:
  "nextNetwork E p c = (r, p', c') \<Longrightarrow>
     removeIPs c' = removeIPs c \<and> existingNic c' = existingNic c \<and>
     (\<exists>is. ips c' = ips c @ is \<and> batch c' = batch c @ map IPBatch is \<and>
           (\<forall>i\<in>set is. p_ip p' = Some i))"
  by (auto simp: nextNetwork_def Let_def split: list.splits if_splits prod.splits sum.splits
      dest!: fetchNextIP_frame)

lemma provisionPool_frame:
  "provisionPool E p c = (r, p', c') \<Longrightarrow>
     removeIPs c' = removeIPs c \<and> existingNic c' = existingNic c \<and>
     (\<exists>is. ips c' = ips c @ is \<and> batch c' = batch c @ map IPBatch is \<and>
           (\<forall>i\<in>set is. p_ip p' = Some i))"
  by (auto simp: provisionPool_def split: sum.splits bool.splits if_splits
      dest!: batchIP_frame fetchNextIP_frame nextNetwork_frame)

lemma provision_frame:
  "provision E p c = (r, p', c') \<Longrightarrow>
     removeIPs c' = removeIPs c \<and> existingNic c' = existingNic c \<and>
     (\<exists>is. ips c' = ips c @ is \<and> batch c' = batch c @ map IPBatch is \<and>
           (\<forall>i\<in>set is. p_ip p' = Some i))"
  by (cases "p_class p")
     (auto simp: provision_def dest!: provisionIP_frame provisionNet_frame provisionPool_frame)

lemma runProvisions_frame:
  "runProvisions E ps c = (r, ps', c') \<Longrightarrow>
     removeIPs c' = removeIPs c \<and> existingNic c' = existingNic c \<and>
     (\<exists>is. ips c' = ips c @ is \<and> batch c' = batch c @ map IPBatch is \<and>
           (\<forall>i\<in>set is. \<exists>q\<in>set ps'. p_ip q = Some i))"
proof (induction ps arbitrary: c r ps' c')
  case Nil
  then show ?case by simp
next
  case (Cons p ps)
  obtain r1 p1 c1 where p: "provision E p c = (r1, p1, c1)"
    by (cases "provision E p c") auto
  from provision_frame [OF p] obtain is1 where f1: "removeIPs c1 = removeIPs c"
    "existingNic c1 = existingNic c" "ips c1 = ips c @ is1"
    "batch c1 = batch c @ map IPBatch is1" "\<forall>i\<in>set is1. p_ip p1 = Some i"
    by blast
  show ?case
  proof (cases "r1 = Done")
    case True
    obtain r2 ps2 c2 where rest: "runProvisions E ps c1 = (r2, ps2, c2)"
      by (cases "runProvisions E ps c1") auto
    from Cons.IH [OF rest] obtain is2 where f2: "removeIPs c2 = removeIPs c1"
      "existingNic c2 = existingNic c1" "ips c2 = ips c1 @ is2"
      "batch c2 = batch c1 @ map IPBatch is2" "\<forall>i\<in>set is2. \<exists>q\<in>set ps2. p_ip q = Some i"
      by blast
    from True p rest Cons.prems have res: "ps' = p1 # ps2" "c' = c2" by simp_all
    have "ips c' = ips c @ (is1 @ is2)" "batch c' = batch c @ map IPBatch (is1 @ is2)"
      "\<forall>i\<in>set (is1 @ is2). \<exists>q\<in>set ps'. p_ip q = Some i"
      using f1 f2 res by auto
    with f1 f2 res show ?thesis by (metis (no_types, lifting))
  next
    case False
    with p Cons.prems have res: "ps' = p1 # ps" "c' = c1" by (cases r1; simp)+
    with f1 show ?thesis by auto
  qed
qed

lemma runProvisions_IPProvisions:
  "\<forall>p\<in>set ps. p_class p = IPProvisionC \<Longrightarrow> runProvisions E ps c = (r, ps', c') \<Longrightarrow> ps' = ps"
proof (induction ps arbitrary: c r ps' c')
  case Nil
  then show ?case by simp
next
  case (Cons p ps)
  obtain r1 p1 c1 where p: "provision E p c = (r1, p1, c1)"
    by (cases "provision E p c") auto
  with Cons.prems(1) have same: "p1 = p"
    by (auto simp: provision_def dest: provisionIP_prov)
  show ?case
  proof (cases "r1 = Done")
    case True
    obtain r2 ps2 c2 where rest: "runProvisions E ps c1 = (r2, ps2, c2)"
      by (cases "runProvisions E ps c1") auto
    from Cons.IH [OF _ rest] Cons.prems(1) have "ps2 = ps" by simp
    with True p rest same Cons.prems(2) show ?thesis by simp
  next
    case False
    with p same Cons.prems(2) show ?thesis by (cases r1) auto
  qed
qed

lemma freeOldIPs_eq: "freeOldIPs c = (Done, c\<lparr>batch := batch c @ map IPFreeBatch (removed c)\<rparr>)"
  by (simp add: freeOldIPs_def removed_def split: option.splits)

lemma listVnetCns_frame: "listVnetCns E c = (r, c') \<Longrightarrow> same_request c c'"
  by (auto simp: listVnetCns_def same_request_def Let_def
      split: if_splits prod.splits list.splits)

lemma macSupplied_frame: "macSupplied E c = (r, c') \<Longrightarrow> same_request c c'"
  by (auto simp: macSupplied_def same_request_def split: if_splits sum.splits)

lemma addUpdatedNic_frame: "addUpdatedNic E c = (r, c') \<Longrightarrow> same_request c c'"
  by (auto simp: addUpdatedNic_def same_request_def split: sum.splits)

lemma randomMAC_frame: "randomMAC E c = (r, c') \<Longrightarrow> same_request c c'"
proof -
  assume run: "randomMAC E c = (r, c')"
  from randomMAC_cases [of E c] show ?thesis
  proof (elim disjE exE conjE)
    fix c1
    assume "randomMAC E c = build_nic E c1" and same: "same_request c c1"
    with run build_nic_frame(7) [of c1 E] show ?thesis
      by (auto simp: same_request_def)
  qed (use run in auto)
qed

lemma run_nicFn_frame: "run_nicFn f E c = (r, c') \<Longrightarrow> same_request c c'"
  by (cases f) (auto dest: macSupplied_frame randomMAC_frame addUpdatedNic_frame)

lemma nicBatch_frame:
  "nicBatch c = (r, c') \<Longrightarrow>
     ips c' = ips c \<and> removeIPs c' = removeIPs c \<and> existingNic c' = existingNic c \<and>
     nic c' = nic c \<and> (batch c' = batch c \<or> (\<exists>n v. batch c' = batch c @ [NicBatch n v]))"
  by (auto simp: nicBatch_def split: option.splits)

lemma commit_frame:
  "commit E c = (r, c') \<Longrightarrow> same_request c c' \<and> nic c' = nic c"
  by (auto simp: commit_def same_request_def split: option.splits prod.splits)

lemma iteration_batch:
  assumes "iteration E f ps c = (r, ps', c')"
  shows "removeIPs c' = removeIPs c \<and> existingNic c' = existingNic c \<and>
     (\<forall>x\<in>set (batch c').
        (\<exists>i\<in>set (ips c'). x = IPBatch i) \<or> (\<exists>old\<in>set (removed c). x = IPFreeBatch old) \<or>
        (\<exists>n v. x = NicBatch n v)) \<and>
     (\<forall>i\<in>set (ips c'). \<exists>q\<in>set ps'. p_ip q = Some i)"
proof -
  let ?I = "\<lambda>s. removeIPs s = removeIPs c \<and> existingNic s = existingNic c \<and>
     (\<forall>x\<in>set (batch s).
        (\<exists>i\<in>set (ips s). x = IPBatch i) \<or> (\<exists>old\<in>set (removed c). x = IPFreeBatch old) \<or>
        (\<exists>n v. x = NicBatch n v)) \<and>
     (\<forall>i\<in>set (ips s). \<exists>q\<in>set ps'. p_ip q = Some i)"
  obtain r1 ps1 c1 where rp: "runProvisions E ps (c\<lparr>batch := [], ips := []\<rparr>) = (r1, ps1, c1)"
    by (cases "runProvisions E ps (c\<lparr>batch := [], ips := []\<rparr>)") auto
  from assms rp have ps': "ps' = ps1"
    by (cases r1) (auto simp: iteration_def split: prod.splits)
  from runProvisions_frame [OF rp] ps' have i1: "?I c1"
    by auto
  show ?thesis
  proof (cases "r1 = Done")
    case False
    with assms rp have "c' = c1" by (cases r1) (auto simp: iteration_def)
    with i1 show ?thesis by simp
  next
    case True
    with assms rp
    have run: "pipeline [freeOldIPs, listVnetCns E, run_nicFn f E, nicBatch, commit E] c1 = (r, c')"
      by (auto simp: iteration_def split: prod.splits)
    have "?I c'"
    proof (rule pipeline_invariant [where I = ?I, OF _ i1 run])
      fix g s r2 s'
      assume g: "g \<in> set [freeOldIPs, listVnetCns E, run_nicFn f E, nicBatch, commit E]"
        and i: "?I s" and gs: "g s = (r2, s')"
      from g consider "g = freeOldIPs" | "g = listVnetCns E" | "g = run_nicFn f E"
        | "g = nicBatch" | "g = commit E"
        by auto
      then show "?I s'"
      proof cases
        case 1
        from i have "removed s = removed c" by (simp add: removed_def)
        with 1 gs freeOldIPs_eq [of s] have "s' = s\<lparr>batch := batch s @ map IPFreeBatch (removed c)\<rparr>"
          by simp
        with i show ?thesis by auto
      next
        case 2
        with gs listVnetCns_frame [of E s r2 s'] i show ?thesis
          by (simp add: same_request_def)
      next
        case 3
        with gs run_nicFn_frame [of f E s r2 s'] i show ?thesis
          by (simp add: same_request_def)
      next
        case 4
        with gs nicBatch_frame [of s r2 s'] i show ?thesis
          by auto
      next
        case 5
        with gs commit_frame [of E s r2 s'] i show ?thesis
          by (simp add: same_request_def)
      qed
    qed
    then show ?thesis by simp
  qed
qed

section \<open>The retry loop\<close>

lemma repeat_error_stops:
  "repeat n E f ps c = Some (Error e, ps', c') \<Longrightarrow> err_stop e"
proof (induction n arbitrary: ps c)
  case 0
  then show ?case by simp
next
  case (Suc n)
  obtain r ps1 c1 where it: "iteration E f ps c = (r, ps1, c1)"
    by (cases "iteration E f ps c") auto
  show ?case
  proof (cases r)
    case Done
    with it Suc.prems show ?thesis by simp
  next
    case (Failed e1)
    with it Suc show ?thesis by (auto split: if_splits)
  next
    case (Thrown x)
    with it Suc.prems show ?thesis by simp
  qed
qed

lemma runProvisions_append_fails:
  "runProvisions E qs c0 = (Done, qs', ca) \<Longrightarrow> provision E p ca = (Failed e, p', cb) \<Longrightarrow>
   runProvisions E (qs @ p # rest) c0 = (Failed e, qs' @ p' # rest, cb)"
proof (induction qs arbitrary: c0 qs')
  case Nil
  then show ?case by simp
next
  case (Cons q qs)
  obtain r1 q1 c1 where q: "provision E q c0 = (r1, q1, c1)"
    by (cases "provision E q c0") auto
  show ?case
  proof (cases "r1 = Done")
    case True
    obtain r2 qs2 c2 where rest: "runProvisions E qs c1 = (r2, qs2, c2)"
      by (cases "runProvisions E qs c1") auto
    with True q Cons.prems(1) have eqs: "r2 = Done" "qs' = q1 # qs2" "c2 = ca" by simp_all
    from Cons.IH [OF _ Cons.prems(2), of c1 qs2] rest eqs
    have "runProvisions E (qs @ p # rest) c1 = (Failed e, qs2 @ p' # rest, cb)" by simp
    with True q eqs show ?thesis by simp
  next
    case False
    with q Cons.prems(1) show ?thesis by (cases r1) auto
  qed
qed

lemma run_nicFn_nic:
  assumes "run_nicFn f E c = (Done, c')"
  shows "nic c' \<noteq> None"
proof (cases f)
  case macSuppliedFn
  with assms show ?thesis
    by (auto simp: macSupplied_def split: if_splits sum.splits)
next
  case randomMACFn
  with assms have run: "randomMAC E c = (Done, c')" by simp
  from randomMAC_cases [of E c] run obtain c1 where "randomMAC E c = build_nic E c1"
    by auto
  from randomMAC_done_via [OF this] run show ?thesis
    by auto
next
  case addUpdatedNicFn
  with assms show ?thesis
    by (auto simp: addUpdatedNic_def split: sum.splits)
qed

lemma runProvisions_fresh:
  assumes "runProvisions E ps (c\<lparr>batch := [], ips := []\<rparr>) = (r1, ps1, c1)"
  shows "batch c1 = map IPBatch (ips c1)" "r1 = Done \<Longrightarrow> length (ips c1) = length ps"
    "removed c1 = removed c"
  using runProvisions_frame [OF assms] runProvisions_ips [OF assms]
  by (auto simp: removed_def)

text \<open>
  C3. A turn of the loop of \<^verbatim>\<open>nicAndIP\<close> first sets \<^verbatim>\<open>opts.batch\<close> and \<^verbatim>\<open>opts.ips\<close> to
  empty lists and then runs its six stages on that context; the hypotheses below name the
  results of the stages. What the turn does is the same whatever the two lists held before:
  after the provisioners, \<^verbatim>\<open>opts.batch\<close> holds exactly the items of the IPs in
  \<^verbatim>\<open>opts.ips\<close>, one IP for each provisioner when they all succeed, and the batch that is
  handed to the commit holds those items, the items that free the old IPs, and the item of
  the NIC built in this turn, and nothing else.

  When a stage fails (the provisioners, where the first provisioner that fails ends the
  stage with its error, the listing of the compute nodes, the NIC function, or the commit),
  the turn fails with that error. If the stop flag of the error is set, the loop ends at
  once with that error; if it is not set, the error is stored in \<^verbatim>\<open>opts.err\<close> and the
  loop goes on with a whole new turn from that context. \<^verbatim>\<open>freeOldIPs\<close> always succeeds,
  and so does \<^verbatim>\<open>nicBatch\<close> after a NIC function that has succeeded. When the commit
  succeeds, the loop ends with the NIC that the NIC function built in this turn, and
  \<^verbatim>\<open>nicAndIP\<close> returns that NIC. \<^verbatim>\<open>nicAndIP\<close> returns what the loop returns. Hence
  every error that the loop returns has its stop flag set.
\<close>

theorem nicAndIP_loop_protocol:
  assumes s1: "runProvisions E ps (c\<lparr>batch := [], ips := []\<rparr>) = (r1, ps1, c1)"
    and s2: "freeOldIPs c1 = (r2, c2)"
    and s3: "listVnetCns E c2 = (r3, c3)"
    and s4: "run_nicFn f E c3 = (r4, c4)"
    and s5: "nicBatch c4 = (r5, c5)"
    and s6: "commit E c5 = (r6, c6)"
  shows
   "iteration E f ps (c\<lparr>batch := b, ips := i\<rparr>) = iteration E f ps c \<and>
    batch c1 = map IPBatch (ips c1) \<and>
    (r1 = Done \<longrightarrow> length (ips c1) = length ps) \<and>
    (r1 = Failed e \<longrightarrow> turn_fails n E f ps c e ps1 c1) \<and>
    r2 = Done \<and>
    (r1 = Done \<longrightarrow> r3 = Failed e \<longrightarrow> turn_fails n E f ps c e ps1 c3) \<and>
    (r1 = Done \<longrightarrow> r3 = Done \<longrightarrow> r4 = Failed e \<longrightarrow> turn_fails n E f ps c e ps1 c4) \<and>
    (r4 = Done \<longrightarrow>
       r5 = Done \<and>
       (\<exists>built. nic c4 = Some built \<and> batch c5 = batch c4 @ [NicBatch built (vnetCns c4)])) \<and>
    (r1 = Done \<longrightarrow> r3 = Done \<longrightarrow> r4 = Done \<longrightarrow>
       (\<exists>built. nic c4 = Some built \<and>
          batch c5 = map IPBatch (ips c1) @ map IPFreeBatch (removed c) @
            [NicBatch built (vnetCns c4)])) \<and>
    (r1 = Done \<longrightarrow> r3 = Done \<longrightarrow> r4 = Done \<longrightarrow> r6 = Failed e \<longrightarrow>
       turn_fails n E f ps c e ps1 c6) \<and>
    (r1 = Done \<longrightarrow> r3 = Done \<longrightarrow> r4 = Done \<longrightarrow> r6 = Done \<longrightarrow>
       iteration E f ps c = (Done, ps1, c6) \<and>
       repeat (Suc n) E f ps c = Some (Result (nic c4), ps1, c6) \<and>
       (runs_loop E c f ps \<longrightarrow> nicAndIP (Suc n) E c = Some (Result (nic c4), c6))) \<and>
    (runs_loop E c f ps \<longrightarrow>
       nicAndIP fuel E c = map_option (\<lambda>(a, ps', c'). (a, c')) (repeat fuel E f ps c)) \<and>
    (runProvisions E qs c0 = (Done, qs', ca) \<longrightarrow> provision E p ca = (Failed e, p', cb) \<longrightarrow>
       runProvisions E (qs @ p # rest) c0 = (Failed e, qs' @ p' # rest, cb)) \<and>
    (repeat fuel E f ps c = Some (Error e, ps', c') \<longrightarrow> err_stop e)"
proof -
  note fresh = runProvisions_fresh [OF s1]
  have r2: "r2 = Done" and c2: "c2 = c1\<lparr>batch := batch c1 @ map IPFreeBatch (removed c1)\<rparr>"
    using s2 freeOldIPs_eq [of c1] by simp_all
  have s2': "freeOldIPs c1 = (Done, c2)"
    using s2 r2 by simp
  have b3: "batch c3 = batch c2" "ips c3 = ips c2"
    using listVnetCns_frame [OF s3] by (simp_all add: same_request_def)
  have b4: "batch c4 = batch c3" "ips c4 = ips c3"
    using run_nicFn_frame [OF s4] by (simp_all add: same_request_def)
  have n6: "nic c6 = nic c5"
    using commit_frame [OF s6] by simp
  have n5: "nic c5 = nic c4"
    using nicBatch_frame [OF s5] by simp
  have built: "r5 = Done \<and>
       (\<exists>built. nic c4 = Some built \<and> batch c5 = batch c4 @ [NicBatch built (vnetCns c4)])"
    if "r4 = Done"
  proof -
    from that s4 run_nicFn_nic [of f E c3 c4] obtain built where "nic c4 = Some built"
      by auto
    with s5 show ?thesis by (auto simp: nicBatch_def)
  qed
  have turn1: "iteration E f ps c = (r1, ps1, c1)" if "r1 \<noteq> Done"
    using that s1 by (cases r1) (simp_all add: iteration_def)
  have turn3: "iteration E f ps c = (r3, ps1, c3)" if "r1 = Done" "r3 \<noteq> Done"
    using that s1 s2' s3 by (cases r3) (simp_all add: iteration_def)
  have turn4: "iteration E f ps c = (r4, ps1, c4)" if "r1 = Done" "r3 = Done" "r4 \<noteq> Done"
    using that s1 s2' s3 s4 by (cases r4) (simp_all add: iteration_def)
  have turn6: "iteration E f ps c = (r6, ps1, c6)" if "r1 = Done" "r3 = Done" "r4 = Done"
    using that s1 s2' s3 s4 s5 s6 built [OF that(3)] by (cases r6) (simp_all add: iteration_def)
  have loop: "nicAndIP fuel' E c = map_option (\<lambda>(a, ps', c'). (a, c')) (repeat fuel' E f ps c)"
    if "runs_loop E c f ps" for fuel'
    using that by (auto simp: runs_loop_def nicAndIP_def split: option.splits)
  have fails: "turn_fails n E f ps c e ps'' c''" if "iteration E f ps c = (Failed e, ps'', c'')"
    for ps'' c''
    using that loop [of "Suc n"] by (simp add: turn_fails_def)
  show ?thesis
  proof (intro conjI impI)
    show "iteration E f ps (c\<lparr>batch := b, ips := i\<rparr>) = iteration E f ps c"
      by (simp add: iteration_def)
    show "batch c1 = map IPBatch (ips c1)" by (rule fresh(1))
    show "length (ips c1) = length ps" if "r1 = Done" using that by (rule fresh(2))
    show "turn_fails n E f ps c e ps1 c1" if "r1 = Failed e"
      using turn1 that by (intro fails) simp
    show "r2 = Done" by (rule r2)
    show "turn_fails n E f ps c e ps1 c3" if "r1 = Done" "r3 = Failed e"
      using turn3 that by (intro fails) simp
    show "turn_fails n E f ps c e ps1 c4" if "r1 = Done" "r3 = Done" "r4 = Failed e"
      using turn4 that by (intro fails) simp
    show "r5 = Done" if "r4 = Done" using built [OF that] by simp
    show "\<exists>built. nic c4 = Some built \<and> batch c5 = batch c4 @ [NicBatch built (vnetCns c4)]"
      if "r4 = Done" using built [OF that] by simp
    show "\<exists>built. nic c4 = Some built \<and>
          batch c5 = map IPBatch (ips c1) @ map IPFreeBatch (removed c) @
            [NicBatch built (vnetCns c4)]"
      if "r1 = Done" "r3 = Done" "r4 = Done"
      using built [OF that(3)] b3 b4 c2 fresh(1,3) by auto
    show "turn_fails n E f ps c e ps1 c6" if "r1 = Done" "r3 = Done" "r4 = Done" "r6 = Failed e"
      using turn6 [OF that(1-3)] that(4) by (intro fails) simp
    show "iteration E f ps c = (Done, ps1, c6)" if "r1 = Done" "r3 = Done" "r4 = Done" "r6 = Done"
      using turn6 [OF that(1-3)] that(4) by simp
    show "repeat (Suc n) E f ps c = Some (Result (nic c4), ps1, c6)"
      if "r1 = Done" "r3 = Done" "r4 = Done" "r6 = Done"
      using turn6 [OF that(1-3)] that(4) n5 n6 by simp
    show "nicAndIP (Suc n) E c = Some (Result (nic c4), c6)"
      if "r1 = Done" "r3 = Done" "r4 = Done" "r6 = Done" "runs_loop E c f ps"
      using turn6 [OF that(1-3)] that(4) n5 n6 loop [OF that(5), of "Suc n"] by simp
    show "nicAndIP fuel E c = map_option (\<lambda>(a, ps', c'). (a, c')) (repeat fuel E f ps c)"
      if "runs_loop E c f ps"
      using that by (rule loop)
    show "runProvisions E (qs @ p # rest) c0 = (Failed e, qs' @ p' # rest, cb)"
      if "runProvisions E qs c0 = (Done, qs', ca)" "provision E p ca = (Failed e, p', cb)"
      using that by (rule runProvisions_append_fails)
    show "err_stop e" if "repeat fuel E f ps c = Some (Error e, ps', c')"
      using that by (rule repeat_error_stops)
  qed
qed

theorem nicAndIP_loop_protocol_witness:
  "runProvisions env1 [NetworkProvision net1] (ctx_on_net1\<lparr>batch := [], ips := []\<rparr>) =
     (Failed err_net1_full, [NetworkProvision net1], ctx_on_net1\<lparr>world := 1\<rparr>) \<and>
   err_stop err_net1_full \<and>
   runs_loop env1 ctx_on_net1 macSuppliedFn [NetworkProvision net1] \<and>
   nicAndIP (Suc 0) env1 ctx_on_net1 = Some (Error err_net1_full, ctx_on_net1\<lparr>world := 1\<rparr>) \<and>
   run_nicFn macSuppliedFn env1 ctx_mac_taken = (Failed mac_duplicate, ctx_mac_taken) \<and>
   err_stop mac_duplicate \<and>
   runs_loop env1 ctx_mac_taken macSuppliedFn [] \<and>
   nicAndIP (Suc 0) env1 ctx_mac_taken = Some (Error mac_duplicate, ctx_mac_taken) \<and>
   listVnetCns env_no_listing (ctx_want_fabric_ip\<lparr>ips := [ip_on_fabric],
       batch := [IPBatch ip_on_fabric]\<rparr>) =
     (Failed (NapiError (OtherError ''MultiError'') False (Some err_listing)),
      ctx_want_fabric_ip\<lparr>ips := [ip_on_fabric], batch := [IPBatch ip_on_fabric], world := 1\<rparr>) \<and>
   iteration env_no_listing macSuppliedFn [IPProvision ip_on_fabric None] ctx_want_fabric_ip =
     (Failed (NapiError (OtherError ''MultiError'') False (Some err_listing)),
      [IPProvision ip_on_fabric None],
      ctx_want_fabric_ip\<lparr>ips := [ip_on_fabric], batch := [IPBatch ip_on_fabric], world := 1\<rparr>) \<and>
   commit env3 (ctx_mac_only\<lparr>nic := Some nic_mac1, batch := [NicBatch nic_mac1 None]\<rparr>) =
     (Failed err_ip10_conflict,
      ctx_mac_only\<lparr>nic := Some nic_mac1, batch := [NicBatch nic_mac1 None], world := 1\<rparr>) \<and>
   \<not> err_stop err_ip10_conflict \<and>
   repeat (Suc (Suc 0)) env3 macSuppliedFn []
       (ctx_mac_only\<lparr>batch := [IPBatch ip10], ips := [ip10]\<rparr>) =
     Some (Result (Some nic_mac1), [],
       ctx_mac_only\<lparr>nic := Some nic_mac1, batch := [NicBatch nic_mac1 None], world := 2,
         err := Some err_ip10_conflict\<rparr>)"
proof -
  note sp = surjective_pairing
  have a1: "runProvisions env1 [NetworkProvision net1] (ctx_on_net1\<lparr>batch := [], ips := []\<rparr>) =
      (Failed err_net1_full, [NetworkProvision net1], ctx_on_net1\<lparr>world := 1\<rparr>)"
    by (simp add: provision_def provisionNet_def NetworkProvision_def fetchNextIP_def
        ctx_on_net1_def ctx1_def env1_def net1_def err_net1_full_def)
  have a2: "err_stop err_net1_full"
    by (simp add: err_net1_full_def)
  have a3: "runs_loop env1 ctx_on_net1 macSuppliedFn [NetworkProvision net1]"
    by (simp add: runs_loop_def ctx_on_net1_def ctx1_def provisioners_of_def)
  note A = nicAndIP_loop_protocol [OF a1 sp sp sp sp sp, where e = err_net1_full and n = 0]
  have "turn_fails 0 env1 macSuppliedFn [NetworkProvision net1] ctx_on_net1 err_net1_full
      [NetworkProvision net1] (ctx_on_net1\<lparr>world := 1\<rparr>)"
    using A by blast
  with a2 a3 have a5: "nicAndIP (Suc 0) env1 ctx_on_net1 =
      Some (Error err_net1_full, ctx_on_net1\<lparr>world := 1\<rparr>)"
    by (simp add: turn_fails_def)
  have m0: "ctx_mac_taken\<lparr>batch := [], ips := []\<rparr> = ctx_mac_taken"
    by (simp add: ctx_mac_taken_def ctx_mac_only_def ctx1_def)
  have m1: "runProvisions env1 [] (ctx_mac_taken\<lparr>batch := [], ips := []\<rparr>) =
      (Done, [], ctx_mac_taken)"
    by (simp add: m0)
  have m2: "freeOldIPs ctx_mac_taken = (Done, ctx_mac_taken)"
    by (simp add: freeOldIPs_def ctx_mac_taken_def ctx_mac_only_def ctx1_def)
  have m3: "listVnetCns env1 ctx_mac_taken = (Done, ctx_mac_taken)"
    by (simp add: listVnetCns_def ctx_mac_taken_def ctx_mac_only_def ctx1_def)
  have m4: "run_nicFn macSuppliedFn env1 ctx_mac_taken = (Failed mac_duplicate, ctx_mac_taken)"
    by (simp add: macSupplied_def nicEtagFail_def mac_duplicate_def ctx_mac_taken_def
        ctx_mac_only_def ctx1_def env1_def)
  have m5: "err_stop mac_duplicate"
    by (simp add: mac_duplicate_def)
  have m6: "runs_loop env1 ctx_mac_taken macSuppliedFn []"
    by (simp add: runs_loop_def ctx_mac_taken_def ctx_mac_only_def ctx1_def provisioners_of_def)
  note M = nicAndIP_loop_protocol [OF m1 m2 m3 m4 sp sp, where e = mac_duplicate and n = 0]
  have "turn_fails 0 env1 macSuppliedFn [] ctx_mac_taken mac_duplicate [] ctx_mac_taken"
    using M by blast
  with m5 m6 have m8: "nicAndIP (Suc 0) env1 ctx_mac_taken =
      Some (Error mac_duplicate, ctx_mac_taken)"
    by (simp add: turn_fails_def)
  let ?cf = "ctx_want_fabric_ip\<lparr>ips := [ip_on_fabric], batch := [IPBatch ip_on_fabric]\<rparr>"
  let ?multi = "NapiError (OtherError ''MultiError'') False (Some err_listing)"
  have f1: "runProvisions env_no_listing [IPProvision ip_on_fabric None]
      (ctx_want_fabric_ip\<lparr>batch := [], ips := []\<rparr>) =
      (Done, [IPProvision ip_on_fabric None], ?cf)"
    by (simp add: provision_def provisionIP_def haveEtagFailure_def batchIP_def
        IPProvision_def ctx_want_fabric_ip_def ctx1_def)
  have f2: "freeOldIPs ?cf = (Done, ?cf)"
    by (simp add: freeOldIPs_def ctx_want_fabric_ip_def ctx1_def)
  have f3: "listVnetCns env_no_listing ?cf = (Failed ?multi, ?cf\<lparr>world := 1\<rparr>)"
    by (simp add: listVnetCns_def ctx_want_fabric_ip_def ctx1_def env_no_listing_def env1_def
        ip_on_fabric_def net_fabric1_def ip10_def)
  note F = nicAndIP_loop_protocol [OF f1 f2 f3 sp sp sp, where e = ?multi and n = 0]
  have "turn_fails 0 env_no_listing macSuppliedFn [IPProvision ip_on_fabric None]
      ctx_want_fabric_ip ?multi [IPProvision ip_on_fabric None] (?cf\<lparr>world := 1\<rparr>)"
    using F by blast
  then have f4: "iteration env_no_listing macSuppliedFn [IPProvision ip_on_fabric None]
      ctx_want_fabric_ip = (Failed ?multi, [IPProvision ip_on_fabric None], ?cf\<lparr>world := 1\<rparr>)"
    by (simp add: turn_fails_def)
  let ?cj = "ctx_mac_only\<lparr>batch := [IPBatch ip10], ips := [ip10]\<rparr>"
  let ?cn = "ctx_mac_only\<lparr>nic := Some nic_mac1\<rparr>"
  let ?cb = "ctx_mac_only\<lparr>nic := Some nic_mac1, batch := [NicBatch nic_mac1 None]\<rparr>"
  have t1: "runProvisions env3 [] (?cj\<lparr>batch := [], ips := []\<rparr>) = (Done, [], ctx_mac_only)"
    by (simp add: ctx_mac_only_def ctx1_def)
  have t2: "freeOldIPs ctx_mac_only = (Done, ctx_mac_only)"
    by (simp add: freeOldIPs_def ctx_mac_only_def ctx1_def)
  have t3: "listVnetCns env3 ctx_mac_only = (Done, ctx_mac_only)"
    by (simp add: listVnetCns_def ctx_mac_only_def ctx1_def)
  have t4: "run_nicFn macSuppliedFn env3 ctx_mac_only = (Done, ?cn)"
    by (simp add: macSupplied_def new_Nic_def linkIP_def isFabric_def Nic_def nic_mac1_def
        ctx_mac_only_def ctx1_def env3_def env1_def)
  have t5: "nicBatch ?cn = (Done, ?cb)"
    by (simp add: nicBatch_def ctx_mac_only_def ctx1_def)
  have t6: "commit env3 ?cb = (Failed err_ip10_conflict, ?cb\<lparr>world := 1\<rparr>)"
    by (simp add: commit_def ctx_mac_only_def ctx1_def env3_def env1_def)
  have t7: "\<not> err_stop err_ip10_conflict"
    by (simp add: err_ip10_conflict_def)
  note T = nicAndIP_loop_protocol [OF t1 t2 t3 t4 t5 t6, where e = err_ip10_conflict
      and n = "Suc 0"]
  have "turn_fails (Suc 0) env3 macSuppliedFn [] ?cj err_ip10_conflict [] (?cb\<lparr>world := 1\<rparr>)"
    using T by blast
  with t7 have t8: "repeat (Suc (Suc 0)) env3 macSuppliedFn [] ?cj =
      repeat (Suc 0) env3 macSuppliedFn [] (?cb\<lparr>world := 1, err := Some err_ip10_conflict\<rparr>)"
    by (simp add: turn_fails_def)
  let ?cc = "?cb\<lparr>world := 1, err := Some err_ip10_conflict\<rparr>"
  let ?cd = "ctx_mac_only\<lparr>world := 1, err := Some err_ip10_conflict\<rparr>"
  have u1: "runProvisions env3 [] (?cc\<lparr>batch := [], ips := []\<rparr>) = (Done, [], ?cd\<lparr>nic := Some nic_mac1\<rparr>)"
    by (simp add: ctx_mac_only_def ctx1_def)
  have u2: "freeOldIPs (?cd\<lparr>nic := Some nic_mac1\<rparr>) = (Done, ?cd\<lparr>nic := Some nic_mac1\<rparr>)"
    by (simp add: freeOldIPs_def ctx_mac_only_def ctx1_def)
  have u3: "listVnetCns env3 (?cd\<lparr>nic := Some nic_mac1\<rparr>) = (Done, ?cd\<lparr>nic := Some nic_mac1\<rparr>)"
    by (simp add: listVnetCns_def ctx_mac_only_def ctx1_def)
  have u4: "run_nicFn macSuppliedFn env3 (?cd\<lparr>nic := Some nic_mac1\<rparr>) =
      (Done, ?cd\<lparr>nic := Some nic_mac1\<rparr>)"
    by (simp add: macSupplied_def new_Nic_def linkIP_def isFabric_def Nic_def nic_mac1_def
        nicEtagFail_def err_ip10_conflict_def ctx_mac_only_def ctx1_def env3_def env1_def)
  have u5: "nicBatch (?cd\<lparr>nic := Some nic_mac1\<rparr>) =
      (Done, ?cd\<lparr>nic := Some nic_mac1, batch := [NicBatch nic_mac1 None]\<rparr>)"
    by (simp add: nicBatch_def ctx_mac_only_def ctx1_def)
  have u6: "commit env3 (?cd\<lparr>nic := Some nic_mac1, batch := [NicBatch nic_mac1 None]\<rparr>) =
      (Done, ?cd\<lparr>nic := Some nic_mac1, batch := [NicBatch nic_mac1 None], world := 2\<rparr>)"
    by (simp add: commit_def ctx_mac_only_def ctx1_def env3_def env1_def)
  note U = nicAndIP_loop_protocol [OF u1 u2 u3 u4 u5 u6, where n = 0]
  have "repeat (Suc 0) env3 macSuppliedFn [] ?cc =
      Some (Result (nic (?cd\<lparr>nic := Some nic_mac1\<rparr>)), [],
        ?cd\<lparr>nic := Some nic_mac1, batch := [NicBatch nic_mac1 None], world := 2\<rparr>)"
    using U by blast
  with t8 have t9: "repeat (Suc (Suc 0)) env3 macSuppliedFn [] ?cj =
      Some (Result (Some nic_mac1), [],
       ctx_mac_only\<lparr>nic := Some nic_mac1, batch := [NicBatch nic_mac1 None], world := 2,
         err := Some err_ip10_conflict\<rparr>)"
    by (simp add: ctx_mac_only_def ctx1_def)
  have t6': "commit env3 (ctx_mac_only\<lparr>nic := Some nic_mac1, batch := [NicBatch nic_mac1 None]\<rparr>) =
     (Failed err_ip10_conflict,
      ctx_mac_only\<lparr>nic := Some nic_mac1, batch := [NicBatch nic_mac1 None], world := 1\<rparr>)"
    using t6 by simp
  from a1 a2 a3 a5 m4 m5 m6 m8 f3 f4 t6' t7 t9 show ?thesis
    by (intro conjI)
qed

section \<open>Updating a NIC\<close>

lemma check_provisionable_pipeline:
  "snd (pipeline (map check_provisionable l) c) = c"
proof (induction l)
  case Nil
  then show ?case by simp
next
  case (Cons i l)
  then show ?case by (simp add: check_provisionable_def)
qed

lemma prepareUpdate_ip:
  assumes "existingNic c = Some oldNIC" "validated c ''_ip'' = Some (PIP newIP)"
  shows "\<exists>up. getUpdatedNicParams E c = Inr up \<and>
     snd (prepareUpdate E c) =
       c\<lparr>nicFn := Some addUpdatedNicFn, baseParams := Some (ip_params E up),
         provisionableIPs := Some [newIP],
         removeIPs := Some (filter (\<lambda>oldIP. ip_v6address oldIP \<notin> set [ip_v6address newIP] \<and>
                 strict_eq (nic_params oldNIC ''belongs_to_uuid'') (ip_belongs_to_uuid oldIP))
              (case nic_ip oldNIC of None \<Rightarrow> [] | Some i \<Rightarrow> [i]))\<rparr>"
  using assms
  by (simp add: prepareUpdate_def getUpdatedNicParams_def Let_def check_provisionable_pipeline)

text \<open>
  C7. When the validated parameters of an update carry an IP, \<^verbatim>\<open>prepareUpdate\<close> puts the
  old IP of the NIC into \<^verbatim>\<open>_removeIPs\<close> exactly when its address differs from the new
  one and its \<^verbatim>\<open>belongs_to_uuid\<close> equals that of the NIC; \<^verbatim>\<open>nicAndIP\<close> then works with
  one \<^verbatim>\<open>IPProvision\<close> for the new IP. \<^verbatim>\<open>freeOldIPs\<close> appends one free item for each IP
  in \<^verbatim>\<open>_removeIPs\<close>. No stage of a turn changes \<^verbatim>\<open>_removeIPs\<close>, and whatever the turn's
  outcome, its batch holds nothing but the items of the IPs selected in the turn, the
  free items of \<^verbatim>\<open>_removeIPs\<close> and the items of the NIC. Hence, when the old IP belongs
  to someone else, every item of the batch of every turn is the item of the new IP or an
  item of the NIC: nothing frees the old IP, and nothing else touches its record.
\<close>

theorem update_frees_only_own_ip:
  "(existingNic c = Some oldNIC \<longrightarrow> validated c ''_ip'' = Some (PIP newIP) \<longrightarrow>
      removed (snd (prepareUpdate E c)) =
        (case nic_ip oldNIC of
           None \<Rightarrow> []
         | Some old \<Rightarrow>
             if ip_v6address old \<noteq> ip_v6address newIP \<and>
                strict_eq (nic_params oldNIC ''belongs_to_uuid'') (ip_belongs_to_uuid old)
             then [old] else []) \<and>
      provisioners_of E bp (snd (prepareUpdate E c)) =
        Inr [IPProvision (createUpdated E newIP bp) None]) \<and>
   freeOldIPs c2 = (Done, c2\<lparr>batch := batch c2 @ map IPFreeBatch (removed c2)\<rparr>) \<and>
   (iteration E f ps c2 = (r, ps', c3) \<longrightarrow>
      removeIPs c3 = removeIPs c2 \<and>
      (\<forall>x\<in>set (batch c3).
         (\<exists>i\<in>set (ips c3). x = IPBatch i) \<or> (\<exists>old\<in>set (removed c2). x = IPFreeBatch old) \<or>
         (\<exists>n v. x = NicBatch n v)) \<and>
      (\<forall>i\<in>set (ips c3). \<exists>q\<in>set ps'. p_ip q = Some i)) \<and>
   (existingNic c = Some oldNIC \<longrightarrow> nic_ip oldNIC = Some old \<longrightarrow>
    validated c ''_ip'' = Some (PIP newIP) \<longrightarrow>
    \<not> strict_eq (nic_params oldNIC ''belongs_to_uuid'') (ip_belongs_to_uuid old) \<longrightarrow>
    removeIPs c2 = removeIPs (snd (prepareUpdate E c)) \<longrightarrow>
    iteration E f [IPProvision u None] c2 = (r, ps', c3) \<longrightarrow>
      (\<forall>x\<in>set (batch c3). x = IPBatch u \<or> (\<exists>n v. x = NicBatch n v)))"
proof (intro conjI impI)
  assume h: "existingNic c = Some oldNIC" "validated c ''_ip'' = Some (PIP newIP)"
  from prepareUpdate_ip [OF h, of E] obtain up where
    eq: "snd (prepareUpdate E c) =
       c\<lparr>nicFn := Some addUpdatedNicFn, baseParams := Some (ip_params E up),
         provisionableIPs := Some [newIP],
         removeIPs := Some (filter (\<lambda>oldIP. ip_v6address oldIP \<notin> set [ip_v6address newIP] \<and>
                 strict_eq (nic_params oldNIC ''belongs_to_uuid'') (ip_belongs_to_uuid oldIP))
              (case nic_ip oldNIC of None \<Rightarrow> [] | Some i \<Rightarrow> [i]))\<rparr>"
    by blast
  show "removed (snd (prepareUpdate E c)) =
        (case nic_ip oldNIC of
           None \<Rightarrow> []
         | Some old \<Rightarrow>
             if ip_v6address old \<noteq> ip_v6address newIP \<and>
                strict_eq (nic_params oldNIC ''belongs_to_uuid'') (ip_belongs_to_uuid old)
             then [old] else [])"
    unfolding eq by (simp add: removed_def split: option.splits)
  show "provisioners_of E bp (snd (prepareUpdate E c)) =
        Inr [IPProvision (createUpdated E newIP bp) None]"
    unfolding eq using h(2) by (simp add: provisioners_of_def)
next
  show "freeOldIPs c2 = (Done, c2\<lparr>batch := batch c2 @ map IPFreeBatch (removed c2)\<rparr>)"
    by (rule freeOldIPs_eq)
next
  assume it: "iteration E f ps c2 = (r, ps', c3)"
  from iteration_batch [OF it]
  show "removeIPs c3 = removeIPs c2"
    "\<forall>x\<in>set (batch c3).
         (\<exists>i\<in>set (ips c3). x = IPBatch i) \<or> (\<exists>old\<in>set (removed c2). x = IPFreeBatch old) \<or>
         (\<exists>n v. x = NicBatch n v)"
    "\<forall>i\<in>set (ips c3). \<exists>q\<in>set ps'. p_ip q = Some i"
    by blast+
next
  assume h: "existingNic c = Some oldNIC" "validated c ''_ip'' = Some (PIP newIP)"
    and old: "nic_ip oldNIC = Some old"
    and other: "\<not> strict_eq (nic_params oldNIC ''belongs_to_uuid'') (ip_belongs_to_uuid old)"
    and same: "removeIPs c2 = removeIPs (snd (prepareUpdate E c))"
    and it: "iteration E f [IPProvision u None] c2 = (r, ps', c3)"
  from prepareUpdate_ip [OF h, of E] old other
  have "removed (snd (prepareUpdate E c)) = []"
    by (auto simp: removed_def)
  with same have none: "removed c2 = []" by (simp add: removed_def)
  obtain r1 ps1 c1 where rp:
    "runProvisions E [IPProvision u None] (c2\<lparr>batch := [], ips := []\<rparr>) = (r1, ps1, c1)"
    by (cases "runProvisions E [IPProvision u None] (c2\<lparr>batch := [], ips := []\<rparr>)") auto
  from runProvisions_IPProvisions [OF _ rp] have "ps1 = [IPProvision u None]"
    by (simp add: IPProvision_def)
  with it rp have ps': "ps' = [IPProvision u None]"
    by (cases r1) (auto simp: iteration_def split: prod.splits)
  from iteration_batch [OF it] none ps'
  show "\<forall>x\<in>set (batch c3). x = IPBatch u \<or> (\<exists>n v. x = NicBatch n v)"
    by (auto simp: IPProvision_def)
qed


theorem update_frees_only_own_ip_witness:
  "existingNic (ctx_update_to_ip11 nic_on_ip10) = Some nic_on_ip10 \<and>
   validated (ctx_update_to_ip11 nic_on_ip10) ''_ip'' = Some (PIP ip11) \<and>
   removed (snd (prepareUpdate env1 (ctx_update_to_ip11 nic_on_ip10))) = [ip10] \<and>
   nic_ip nic_on_lost_ip = Some ip10_of_b2 \<and>
   \<not> strict_eq (nic_params nic_on_lost_ip ''belongs_to_uuid'') (ip_belongs_to_uuid ip10_of_b2) \<and>
   removed (snd (prepareUpdate env1 (ctx_update_to_ip11 nic_on_lost_ip))) = [] \<and>
   fst (iteration env1 addUpdatedNicFn [IPProvision ip11 None]
          (snd (prepareUpdate env1 (ctx_update_to_ip11 nic_on_lost_ip)))) = Done \<and>
   IPFreeBatch ip10_of_b2 \<notin> set (batch (snd (snd
     (iteration env1 addUpdatedNicFn [IPProvision ip11 None]
        (snd (prepareUpdate env1 (ctx_update_to_ip11 nic_on_lost_ip))))))) \<and>
   IPFreeBatch ip10 \<in> set (batch (snd (snd
     (iteration env1 addUpdatedNicFn [IPProvision ip11 None]
        (snd (prepareUpdate env1 (ctx_update_to_ip11 nic_on_ip10)))))))"
proof -
  let ?a = "ctx_update_to_ip11 nic_on_ip10"
  let ?b = "ctx_update_to_ip11 nic_on_lost_ip"
  have ha: "existingNic ?a = Some nic_on_ip10" "validated ?a ''_ip'' = Some (PIP ip11)"
    "nic_ip nic_on_ip10 = Some ip10"
    "strict_eq (nic_params nic_on_ip10 ''belongs_to_uuid'') (ip_belongs_to_uuid ip10)"
    "ip_v6address ip10 \<noteq> ip_v6address ip11"
    by (simp_all add: ctx_update_to_ip11_def ctx1_def nic_on_ip10_def strict_eq_def ip10_def
        ip11_def)
  have hb: "existingNic ?b = Some nic_on_lost_ip" "validated ?b ''_ip'' = Some (PIP ip11)"
    "nic_ip nic_on_lost_ip = Some ip10_of_b2"
    "\<not> strict_eq (nic_params nic_on_lost_ip ''belongs_to_uuid'') (ip_belongs_to_uuid ip10_of_b2)"
    by (simp_all add: ctx_update_to_ip11_def ctx1_def nic_on_lost_ip_def nic_on_ip10_def
        strict_eq_def ip10_of_b2_def)
  note pa = update_frees_only_own_ip [where E = env1 and c = ?a, THEN conjunct1, rule_format,
      OF ha(1,2), THEN conjunct1]
  note pb = update_frees_only_own_ip [where E = env1 and c = ?b, THEN conjunct1, rule_format,
      OF hb(1,2), THEN conjunct1]
  from pa ha(3-5) have ra: "removed (snd (prepareUpdate env1 ?a)) = [ip10]" by simp
  from pb hb(3,4) have rb: "removed (snd (prepareUpdate env1 ?b)) = []" by simp
  obtain r ps' c3 where it: "iteration env1 addUpdatedNicFn [IPProvision ip11 None]
      (snd (prepareUpdate env1 ?b)) = (r, ps', c3)"
    by (cases "iteration env1 addUpdatedNicFn [IPProvision ip11 None]
      (snd (prepareUpdate env1 ?b))") auto
  note other = update_frees_only_own_ip [where E = env1 and c = ?b
      and ?c2.0 = "snd (prepareUpdate env1 ?b)" and f = addUpdatedNicFn and u = ip11,
      THEN conjunct2, THEN conjunct2, THEN conjunct2, rule_format, OF hb(1,3,2,4) refl it]
  then have nofree: "IPFreeBatch ip10_of_b2 \<notin> set (batch c3)"
    by auto
  from prepareUpdate_ip [OF hb(1,2), of env1] obtain upb where
    eqb: "snd (prepareUpdate env1 ?b) =
       ?b\<lparr>nicFn := Some addUpdatedNicFn, baseParams := Some (ip_params env1 upb),
         provisionableIPs := Some [ip11],
         removeIPs := Some (filter (\<lambda>oldIP. ip_v6address oldIP \<notin> set [ip_v6address ip11] \<and>
                 strict_eq (nic_params nic_on_lost_ip ''belongs_to_uuid'')
                   (ip_belongs_to_uuid oldIP))
              (case nic_ip nic_on_lost_ip of None \<Rightarrow> [] | Some i \<Rightarrow> [i]))\<rparr>"
    by blast
  from prepareUpdate_ip [OF ha(1,2), of env1] obtain upa where
    eqa: "snd (prepareUpdate env1 ?a) =
       ?a\<lparr>nicFn := Some addUpdatedNicFn, baseParams := Some (ip_params env1 upa),
         provisionableIPs := Some [ip11],
         removeIPs := Some (filter (\<lambda>oldIP. ip_v6address oldIP \<notin> set [ip_v6address ip11] \<and>
                 strict_eq (nic_params nic_on_ip10 ''belongs_to_uuid'')
                   (ip_belongs_to_uuid oldIP))
              (case nic_ip nic_on_ip10 of None \<Rightarrow> [] | Some i \<Rightarrow> [i]))\<rparr>"
    by blast
  have evb: "fst (iteration env1 addUpdatedNicFn [IPProvision ip11 None]
      (snd (prepareUpdate env1 ?b))) = Done"
    unfolding eqb
    by (simp add: iteration_def getUpdatedNicParams_def provision_def
        provisionIP_def haveEtagFailure_def batchIP_def freeOldIPs_def listVnetCns_def
        addUpdatedNic_def new_Nic_def linkIP_def nicBatch_def commit_def IPProvision_def
        ctx_update_to_ip11_def ctx1_def env1_def ip11_def net1_def nic_on_lost_ip_def
        nic_on_ip10_def strict_eq_def ip10_of_b2_def ip10_def)
  have eva: "IPFreeBatch ip10 \<in> set (batch (snd (snd
     (iteration env1 addUpdatedNicFn [IPProvision ip11 None] (snd (prepareUpdate env1 ?a))))))"
    unfolding eqa
    by (simp add: iteration_def getUpdatedNicParams_def provision_def
        provisionIP_def haveEtagFailure_def batchIP_def freeOldIPs_def listVnetCns_def
        addUpdatedNic_def new_Nic_def linkIP_def nicBatch_def commit_def IPProvision_def
        ctx_update_to_ip11_def ctx1_def env1_def ip11_def net1_def
        nic_on_ip10_def strict_eq_def ip10_def)
  from ha(1,2) ra hb(3,4) rb evb nofree it eva show ?thesis by simp
qed

lemma fold_other_key:
  "k \<notin> set ks \<Longrightarrow>
   fold (\<lambda>p m. case v p of None \<Rightarrow> m | Some x \<Rightarrow> m(p \<mapsto> x)) ks m0 k = m0 k"
  by (induction ks arbitrary: m0) (auto split: option.splits)

lemma mac_not_updatable: "''mac'' \<notin> set UPDATE_PARAMS"
  by (simp add: UPDATE_PARAMS_def)

lemma getUpdatedNicParams_mac:
  "existingNic c = Some en \<Longrightarrow> getUpdatedNicParams E c = Inr up \<Longrightarrow>
   up ''mac'' = serialize E en ''mac''"
  using fold_other_key [OF mac_not_updatable, of "validated c" "serialize E en"]
  by (auto simp: getUpdatedNicParams_def)

lemma linkIP_params: "linkIP n is = Inr n' \<Longrightarrow> nic_params n' = nic_params n"
  by (auto simp: linkIP_def split: if_splits)

lemma addUpdatedNic_mac:
  "addUpdatedNic E c = (Done, c') \<Longrightarrow> existingNic c = Some en \<Longrightarrow>
   \<exists>n. nic c' = Some n \<and> nic_params n ''mac'' = serialize E en ''mac''"
  by (auto simp: addUpdatedNic_def new_Nic_def Nic_def
      split: sum.splits option.splits dest!: getUpdatedNicParams_mac linkIP_params)

lemma iteration_update_mac:
  assumes "iteration E addUpdatedNicFn ps c = (Done, ps', c')" "existingNic c = Some en"
  shows "\<exists>n. nic c' = Some n \<and> nic_params n ''mac'' = serialize E en ''mac''"
proof -
  obtain r1 ps1 c1 where rp: "runProvisions E ps (c\<lparr>batch := [], ips := []\<rparr>) = (r1, ps1, c1)"
    by (cases "runProvisions E ps (c\<lparr>batch := [], ips := []\<rparr>)") auto
  with assms(1) have r1: "r1 = Done"
    and run: "pipeline [freeOldIPs, listVnetCns E, run_nicFn addUpdatedNicFn E, nicBatch,
      commit E] c1 = (Done, c')"
    by (cases r1; auto simp: iteration_def split: prod.splits)+
  from runProvisions_frame [OF rp] assms(2) have e1: "existingNic c1 = Some en" by simp
  from pipeline_Done [OF run] obtain c2 where s1: "freeOldIPs c1 = (Done, c2)"
    and run2: "pipeline [listVnetCns E, run_nicFn addUpdatedNicFn E, nicBatch, commit E] c2 =
      (Done, c')" by blast
  from s1 e1 have e2: "existingNic c2 = Some en" by (auto simp: freeOldIPs_eq)
  from pipeline_Done [OF run2] obtain c3 where s2: "listVnetCns E c2 = (Done, c3)"
    and run3: "pipeline [run_nicFn addUpdatedNicFn E, nicBatch, commit E] c3 = (Done, c')"
    by blast
  from listVnetCns_frame [OF s2] e2 have e3: "existingNic c3 = Some en"
    by (simp add: same_request_def)
  from pipeline_Done [OF run3] obtain c4 where s3: "addUpdatedNic E c3 = (Done, c4)"
    and run4: "pipeline [nicBatch, commit E] c4 = (Done, c')"
    by auto
  from addUpdatedNic_mac [OF s3 e3] obtain n where
    n: "nic c4 = Some n" "nic_params n ''mac'' = serialize E en ''mac''" by blast
  from pipeline_Done [OF run4] obtain c5 where s4: "nicBatch c4 = (Done, c5)"
    and run5: "pipeline [commit E] c5 = (Done, c')"
    by blast
  from pipeline_Done [OF run5] obtain c6 where s5: "commit E c5 = (Done, c6)"
    and "pipeline [] c6 = (Done, c')"
    by blast
  then have "c6 = c'" by simp
  with nicBatch_frame [OF s4] commit_frame [OF s5] n show ?thesis by simp
qed

lemma repeat_update_mac:
  "repeat k E addUpdatedNicFn ps c = Some (Result r, ps', c') \<Longrightarrow> existingNic c = Some en \<Longrightarrow>
   \<exists>n. r = Some n \<and> nic_params n ''mac'' = serialize E en ''mac''"
proof (induction k arbitrary: ps c)
  case 0
  then show ?case by simp
next
  case (Suc k)
  obtain r1 ps1 c1 where it: "iteration E addUpdatedNicFn ps c = (r1, ps1, c1)"
    by (cases "iteration E addUpdatedNicFn ps c") auto
  show ?case
  proof (cases r1)
    case Done
    with it iteration_update_mac [of E ps c ps1 c1 en] Suc.prems show ?thesis by auto
  next
    case (Failed e1)
    from iteration_batch [OF it] Suc.prems(2) have "existingNic (c1\<lparr>err := Some e1\<rparr>) = Some en"
      by simp
    with Failed it Suc.prems(1) Suc.IH [of ps1 "c1\<lparr>err := Some e1\<rparr>"] show ?thesis
      by (auto split: if_splits)
  next
    case (Thrown x)
    with it Suc.prems show ?thesis by simp
  qed
qed

lemma prepareUpdate_frame:
  "existingNic (snd (prepareUpdate E c)) = existingNic c \<and>
   nicFn (snd (prepareUpdate E c)) = Some addUpdatedNicFn"
proof (cases "getUpdatedNicParams E c")
  case (Inl x)
  then show ?thesis by (simp add: prepareUpdate_def)
next
  case (Inr up)
  then obtain en where en: "existingNic c = Some en"
    by (auto simp: getUpdatedNicParams_def split: option.splits)
  show ?thesis
  proof (cases "validated c ''_ip''")
    case None
    with Inr show ?thesis by (simp add: prepareUpdate_def)
  next
    case (Some v)
    show ?thesis
    proof (cases v)
      case (PIP newIP)
      with Some prepareUpdate_ip [OF en, of newIP E] show ?thesis by auto
    qed (use Inr Some in \<open>simp_all add: prepareUpdate_def\<close>)
  qed
qed

lemma repeat_result_nic:
  "repeat k E f ps c = Some (Result r, ps', c') \<Longrightarrow> r = nic c'"
proof (induction k arbitrary: ps c)
  case 0
  then show ?case by simp
next
  case (Suc k)
  obtain r1 ps1 c1 where it: "iteration E f ps c = (r1, ps1, c1)"
    by (cases "iteration E f ps c") auto
  show ?case
  proof (cases r1)
    case Done
    with it Suc.prems show ?thesis by auto
  next
    case (Failed e1)
    with it Suc.prems Suc.IH [of ps1 "c1\<lparr>err := Some e1\<rparr>"] show ?thesis
      by (auto split: if_splits)
  next
    case (Thrown x)
    with it Suc.prems show ?thesis by simp
  qed
qed

lemma update_chain:
  assumes "pipeline [getExistingNic E, validateUpdateParams E, prepareUpdate E] c = (Done, c1)"
  shows "\<exists>en w. getNic E (params c) (world c) = (Inr en, w) \<and> existingNic c1 = Some en \<and>
    nicFn c1 = Some addUpdatedNicFn"
proof -
  from pipeline_Done [OF assms] obtain ca where s1: "getExistingNic E c = (Done, ca)"
    and run2: "pipeline [validateUpdateParams E, prepareUpdate E] ca = (Done, c1)" by blast
  from pipeline_Done [OF run2] obtain cb where s2: "validateUpdateParams E ca = (Done, cb)"
    and run3: "pipeline [prepareUpdate E] cb = (Done, c1)" by blast
  from pipeline_Done [OF run3] obtain cc where s3: "prepareUpdate E cb = (Done, cc)"
    and "pipeline [] cc = (Done, c1)" by blast
  then have c1: "snd (prepareUpdate E cb) = c1" by simp
  from s1 obtain en w where g: "getNic E (params c) (world c) = (Inr en, w)"
    "existingNic ca = Some en"
    by (auto simp: getExistingNic_def split: prod.splits sum.splits)
  from s2 g(2) have "existingNic cb = Some en"
    by (auto simp: validateUpdateParams_def split: prod.splits sum.splits)
  with prepareUpdate_frame [of E cb] c1 g(1) show ?thesis by auto
qed

lemma update_mac:
  assumes "update fuel E c = Some (Result r, c')"
  shows "\<exists>n en w. getNic E (params c) (world c) = (Inr en, w) \<and> r = Some n \<and>
    nic_params n ''mac'' = serialize E en ''mac''"
proof -
  obtain ro c1 where pre:
    "pipeline [getExistingNic E, validateUpdateParams E, prepareUpdate E] c = (ro, c1)"
    by (cases "pipeline [getExistingNic E, validateUpdateParams E, prepareUpdate E] c") auto
  with assms have ro: "ro = Done"
    by (cases ro) (auto simp: update_def)
  from update_chain [OF pre [unfolded ro]] obtain en w where
    g: "getNic E (params c) (world c) = (Inr en, w)" "existingNic c1 = Some en"
      "nicFn c1 = Some addUpdatedNicFn" by blast
  from assms pre ro obtain r0 where drv: "nicAndIP fuel E c1 = Some (Result r0, c')"
    and r: "r = nic c'"
    by (auto simp: update_def split: option.splits prod.splits answer.splits)
  from drv g(3) obtain ps ps' where
    "repeat fuel E addUpdatedNicFn ps c1 = Some (Result r0, ps', c')"
    by (auto simp: nicAndIP_def split: option.splits sum.splits)
  from repeat_update_mac [OF this g(2)] repeat_result_nic [OF this] r g(1)
  show ?thesis by auto
qed

text \<open>
  C8. \<open>mac\<close> is not among \<^verbatim>\<open>UPDATE_PARAMS\<close>, so the parameters that
  \<^verbatim>\<open>getUpdatedNicParams\<close> builds carry the MAC of the serialization of the existing NIC,
  whatever the validated parameters hold. Every update that succeeds, after however many
  turns of the loop, returns a NIC whose parameters carry that MAC: the MAC of the NIC
  that \<^verbatim>\<open>getExistingNic\<close> loaded.
\<close>

theorem update_preserves_mac:
  "''mac'' \<notin> set UPDATE_PARAMS \<and>
   (existingNic c = Some en \<longrightarrow> getUpdatedNicParams E c = Inr up \<longrightarrow>
      up ''mac'' = serialize E en ''mac'') \<and>
   (update fuel E c = Some (Result r, c') \<longrightarrow>
      (\<exists>n old w. getNic E (params c) (world c) = (Inr old, w) \<and> r = Some n \<and>
         nic_params n ''mac'' = serialize E old ''mac''))"
  using mac_not_updatable getUpdatedNicParams_mac [of c en E up] update_mac [of fuel E c r c']
  by blast

theorem update_preserves_mac_witness:
  "getNic (env_with nic_on_ip10) (params ctx_update_model) (world ctx_update_model) =
     (Inr nic_on_ip10, 1) \<and>
   serialize (env_with nic_on_ip10) nic_on_ip10 ''mac'' = Some (PNum 1) \<and>
   (\<exists>n c'. update (Suc 0) (env_with nic_on_ip10) ctx_update_model = Some (Result (Some n), c') \<and>
      nic_params n ''model'' = Some (PStr ''virtio'') \<and>
      nic_params n ''mac'' = Some (PNum 1))"
proof -
  let ?E = "env_with nic_on_ip10"
  have g: "getNic ?E (params ctx_update_model) (world ctx_update_model) = (Inr nic_on_ip10, 1)"
    by (simp add: env_with_def env1_def ctx_update_model_def ctx1_def)
  have s: "serialize ?E nic_on_ip10 ''mac'' = Some (PNum 1)"
    by (simp add: env_with_def env1_def nic_on_ip10_def)
  have "\<exists>n c'. update (Suc 0) ?E ctx_update_model = Some (Result (Some n), c') \<and>
      nic_params n ''model'' = Some (PStr ''virtio'')"
    by (simp add: update_def getExistingNic_def validateUpdateParams_def prepareUpdate_def
        getUpdatedNicParams_def UPDATE_PARAMS_def nicAndIP_def provisioners_of_def
        iteration_def freeOldIPs_def listVnetCns_def addUpdatedNic_def new_Nic_def Nic_def
        linkIP_def nicBatch_def commit_def env_with_def env1_def ctx_update_model_def
        ctx1_def nic_on_ip10_def)
  then obtain n c' where u: "update (Suc 0) ?E ctx_update_model = Some (Result (Some n), c')"
    and m: "nic_params n ''model'' = Some (PStr ''virtio'')"
    by blast
  from update_preserves_mac [where E = ?E and c = ctx_update_model and fuel = "Suc 0",
      THEN conjunct2, THEN conjunct2, rule_format, OF u] g
  have "nic_params n ''mac'' = serialize ?E nic_on_ip10 ''mac''"
    by auto
  with s u m g show ?thesis by auto
qed


end
